theory Spec2Isabelle
  imports
    Complex_Main
    "HOL-Library.Char_ord"
    "HOL-Library.List_Lexorder"
    "HOL-Library.Sublist"
    "HOL-Library.Multiset"
begin

section \<open>Campaign dashboard: data model\<close>

text \<open>
  The dashboard component (\<^verbatim>\<open>app/page.tsx\<close>) keeps a list of campaigns, a sort
  field and a sort direction in React state, mirrors the list into \<^verbatim>\<open>localStorage\<close>
  and renders a sorted copy of the list.

  A JavaScript number is \<^verbatim>\<open>NaN\<close>, a finite binary64 value, given by the real number
  it denotes, or one of the two infinities. The two zeros are one value: no operation
  of the component tells them apart.
\<close>

datatype number = NaN | Fin real | PosInfinity | NegInfinity

subsection \<open>Rounding to binary64\<close>

text \<open>
  A numeric literal and the result of an arithmetic operation are the binary64 value
  nearest to the exact real, ties going to the even significand. A binary64 value has
  a significand of 53 bits, and no exponent of its last bit below \<open>-1074\<close>. A real that
  rounds to magnitude \<open>2\<^sup>1\<^sup>0\<^sup>2\<^sup>4\<close> or more is an infinity.
\<close>

definition round_half_even :: "real \<Rightarrow> int" where
  "round_half_even q =
     (let f = \<lfloor>q\<rfloor>; d = q - of_int f
      in if d < 1 / 2 then f else if 1 / 2 < d then f + 1 else if even f then f else f + 1)"

definition pow2 :: "int \<Rightarrow> real" where
  "pow2 e = (if 0 \<le> e then 2 ^ nat e else 1 / 2 ^ nat (- e))"

function bit_length :: "int \<Rightarrow> int" where
  "bit_length n = (if n \<le> 0 then 0 else 1 + bit_length (n div 2))"
  by pat_completeness auto
termination
  by (relation "measure nat") auto

declare bit_length.simps [simp del]

text \<open>The integer \<open>e\<close> with \<open>2\<^sup>e \<le> x < 2\<^sup>e\<^sup>+\<^sup>1\<close>, for a positive \<open>x\<close>.\<close>

definition binary_exponent :: "real \<Rightarrow> int" where
  "binary_exponent x =
     (if 1 \<le> x then bit_length \<lfloor>x\<rfloor> - 1
      else (let b = bit_length \<lfloor>1 / x\<rfloor>
            in if x * pow2 (b - 1) = 1 then - (b - 1) else - b))"

definition binary64_round :: "real \<Rightarrow> real" where
  "binary64_round x =
     (if x = 0 then 0
      else (let u = max (binary_exponent \<bar>x\<bar> - 52) (- 1074)
            in of_int (round_half_even (x / pow2 u)) * pow2 u))"

text \<open>
  An integer of magnitude up to \<open>2\<^sup>5\<^sup>3\<close> is a binary64 value, so rounding leaves it as
  it is; \<open>to_binary64\<close> says so without computing.
\<close>

definition is_safe_integer :: "real \<Rightarrow> bool" where
  "is_safe_integer x = (of_int \<lfloor>x\<rfloor> = x \<and> \<bar>x\<bar> \<le> 9007199254740992)"

definition to_binary64 :: "real \<Rightarrow> real" where
  "to_binary64 x = (if is_safe_integer x then x else binary64_round x)"

definition number_of_real :: "real \<Rightarrow> number" where
  "number_of_real x =
     (let y = to_binary64 x
      in if 2 ^ 1024 \<le> y then PosInfinity
         else if y \<le> - (2 ^ 1024) then NegInfinity
         else Fin y)"

text \<open>
  The number a stored number stands for: a real that is not a binary64 value is read
  as the literal that denotes it.
\<close>

fun number_value :: "number \<Rightarrow> number" where
  "number_value (Fin x) = number_of_real x"
| "number_value n = n"

text \<open>
  The interface \<^verbatim>\<open>Campaign\<close> of \<^verbatim>\<open>lib/types.ts\<close> (reproduced in the README):
  \<^verbatim>\<open>id, name, startDate, endDate: string; clicks, cost, revenue: number; profit?: number\<close>.
  Records read back from \<^verbatim>\<open>localStorage\<close> are not validated, so every field may be
  missing at run time (reading it yields \<^verbatim>\<open>undefined\<close>): each field is an option.
  The field \<^verbatim>\<open>id\<close> is called \<open>id'\<close> here.
\<close>

record Campaign =
  id' :: "string option"
  name :: "string option"
  startDate :: "string option"
  endDate :: "string option"
  clicks :: "number option"
  cost :: "number option"
  revenue :: "number option"
  profit :: "number option"

text \<open>\<^verbatim>\<open>keyof Campaign\<close>, the type of a sort field.\<close>

datatype campaign_field = Id | Name | StartDate | EndDate | Clicks | Cost | Revenue | Profit

text \<open>\<^verbatim>\<open>"asc" | "desc"\<close>\<close>

datatype direction = Asc | Desc

text \<open>The four \<^verbatim>\<open>useState\<close> cells of \<^verbatim>\<open>CampaignDashboard\<close>.\<close>

record state =
  campaigns :: "Campaign list"
  sortField :: campaign_field
  sortDirection :: direction
  isModalOpen :: bool

text \<open>The initial values given to \<^verbatim>\<open>useState\<close>.\<close>

definition initial_state :: state where
  "initial_state =
     \<lparr>campaigns = [], sortField = Name, sortDirection = Asc, isModalOpen = False\<rparr>"

section \<open>Event handlers\<close>

text \<open>\<^verbatim>\<open>setCampaigns([...campaigns, campaign]); setIsModalOpen(false)\<close>\<close>

definition handleAddCampaign :: "Campaign \<Rightarrow> state \<Rightarrow> state" where
  "handleAddCampaign campaign st =
     st\<lparr>campaigns := campaigns st @ [campaign], isModalOpen := False\<rparr>"

text \<open>
  \<^verbatim>\<open>setCampaigns(campaigns.filter((campaign) => campaign.id !== id))\<close>.
  The argument is a string; a campaign without an id is kept.
\<close>

definition handleDeleteCampaign :: "string \<Rightarrow> state \<Rightarrow> state" where
  "handleDeleteCampaign i st =
     st\<lparr>campaigns := filter (\<lambda>campaign. id' campaign \<noteq> Some i) (campaigns st)\<rparr>"

definition handleSort :: "campaign_field \<Rightarrow> state \<Rightarrow> state" where
  "handleSort fld st =
     (if fld = sortField st
      then st\<lparr>sortDirection := (if sortDirection st = Asc then Desc else Asc)\<rparr>
      else st\<lparr>sortField := fld, sortDirection := Asc\<rparr>)"

section \<open>The sorted view\<close>

subsection \<open>JavaScript values and operators used by the comparator\<close>

text \<open>The values a comparison key can take: \<^verbatim>\<open>undefined\<close>, a number or a string.\<close>

datatype jsval = Undefined | Number number | String string

text \<open>
  Two functions of the JavaScript run time are parameters of the model:
  \<^verbatim>\<open>new Date(s).getTime()\<close> for a string \<open>s\<close> (\<open>NaN\<close> for an invalid date), and the
  conversion of a string to a number that \<^verbatim>\<open><\<close> applies when one operand is a
  number.
\<close>

record runtime =
  Date_parse :: "string \<Rightarrow> number"
  StringToNumber :: "string \<Rightarrow> number"

text \<open>Property access \<^verbatim>\<open>a[sortField]\<close>.\<close>

fun opt_string :: "string option \<Rightarrow> jsval" where
  "opt_string None = Undefined"
| "opt_string (Some s) = String s"

fun opt_number :: "number option \<Rightarrow> jsval" where
  "opt_number None = Undefined"
| "opt_number (Some n) = Number (number_value n)"

fun get_field :: "campaign_field \<Rightarrow> Campaign \<Rightarrow> jsval" where
  "get_field Id a = opt_string (id' a)"
| "get_field Name a = opt_string (name a)"
| "get_field StartDate a = opt_string (startDate a)"
| "get_field EndDate a = opt_string (endDate a)"
| "get_field Clicks a = opt_number (clicks a)"
| "get_field Cost a = opt_number (cost a)"
| "get_field Revenue a = opt_number (revenue a)"
| "get_field Profit a = opt_number (profit a)"

text \<open>\<^verbatim>\<open>ToNumber\<close>: \<^verbatim>\<open>undefined\<close> becomes \<open>NaN\<close>.\<close>

fun ToNumber :: "runtime \<Rightarrow> jsval \<Rightarrow> number" where
  "ToNumber rt Undefined = NaN"
| "ToNumber rt (Number n) = n"
| "ToNumber rt (String s) = StringToNumber rt s"

text \<open>
  The operator \<^verbatim>\<open>-\<close> on numbers: the exact difference rounded to binary64;
  \<open>NaN\<close> is absorbing, and the difference of two infinities of the same sign is
  \<open>NaN\<close>.
\<close>

fun number_minus :: "number \<Rightarrow> number \<Rightarrow> number" where
  "number_minus (Fin x) (Fin y) = number_of_real (x - y)"
| "number_minus (Fin x) PosInfinity = NegInfinity"
| "number_minus (Fin x) NegInfinity = PosInfinity"
| "number_minus PosInfinity (Fin y) = PosInfinity"
| "number_minus PosInfinity NegInfinity = PosInfinity"
| "number_minus NegInfinity (Fin y) = NegInfinity"
| "number_minus NegInfinity PosInfinity = NegInfinity"
| "number_minus _ _ = NaN"

definition js_minus :: "runtime \<Rightarrow> jsval \<Rightarrow> jsval \<Rightarrow> number" where
  "js_minus rt x y = number_minus (ToNumber rt x) (ToNumber rt y)"

text \<open>
  \<^verbatim>\<open>new Date(v).getTime()\<close>: an absent argument value gives an invalid date, whose
  time is \<open>NaN\<close>; a number is clipped to the range of time values and truncated;
  a string is parsed.
\<close>

fun TimeClip :: "number \<Rightarrow> number" where
  "TimeClip (Fin x) =
     (if \<bar>x\<bar> > 8640000000000000 then NaN
      else Fin (of_int (if 0 \<le> x then \<lfloor>x\<rfloor> else \<lceil>x\<rceil>)))"
| "TimeClip _ = NaN"

fun Date_getTime :: "runtime \<Rightarrow> jsval \<Rightarrow> number" where
  "Date_getTime rt Undefined = NaN"
| "Date_getTime rt (Number n) = TimeClip n"
| "Date_getTime rt (String s) = Date_parse rt s"

text \<open>The operator \<^verbatim>\<open>??\<close>: the right operand replaces \<^verbatim>\<open>undefined\<close> only.\<close>

fun nullish :: "jsval \<Rightarrow> jsval \<Rightarrow> jsval" where
  "nullish Undefined d = d"
| "nullish v d = v"

text \<open>
  The operator \<^verbatim>\<open><\<close>: two strings are compared lexicographically by their
  code units; otherwise both operands are converted to numbers, and a comparison
  with \<open>NaN\<close> is false.
\<close>

fun number_less :: "number \<Rightarrow> number \<Rightarrow> bool" where
  "number_less (Fin x) (Fin y) = (x < y)"
| "number_less (Fin x) PosInfinity = True"
| "number_less NegInfinity (Fin y) = True"
| "number_less NegInfinity PosInfinity = True"
| "number_less _ _ = False"

fun js_less :: "runtime \<Rightarrow> jsval \<Rightarrow> jsval \<Rightarrow> bool" where
  "js_less rt (String s) (String t) = (s < t)"
| "js_less rt x y = number_less (ToNumber rt x) (ToNumber rt y)"

subsection \<open>The comparator\<close>

text \<open>
  The value \<^verbatim>\<open>aVal\<close> (and \<^verbatim>\<open>bVal\<close>) of the comparator: the field, replaced by
  \<^verbatim>\<open>a.revenue - a.cost\<close> for the profit, then by the time of the date for the two
  date fields, then by 0 when it is \<^verbatim>\<open>undefined\<close>.
\<close>

definition sortValue :: "runtime \<Rightarrow> campaign_field \<Rightarrow> Campaign \<Rightarrow> jsval" where
  "sortValue rt sf a =
     (let aValue = get_field sf a;
          aValue = (if sf = Profit
                    then Number (js_minus rt (get_field Revenue a) (get_field Cost a))
                    else aValue);
          aValue = (if sf = StartDate \<or> sf = EndDate
                    then Number (Date_getTime rt (get_field sf a))
                    else aValue)
      in nullish aValue (Number (Fin 0)))"

definition compareCampaigns :: "runtime \<Rightarrow> campaign_field \<Rightarrow> direction \<Rightarrow> Campaign \<Rightarrow> Campaign \<Rightarrow> int" where
  "compareCampaigns rt sf sd a b =
     (let aVal = sortValue rt sf a; bVal = sortValue rt sf b
      in if js_less rt aVal bVal then (if sd = Asc then - 1 else 1)
         else if js_less rt bVal aVal then (if sd = Asc then 1 else - 1)
         else 0)"

subsection \<open>Array.prototype.sort\<close>

text \<open>
  \<^verbatim>\<open>Array.prototype.sort\<close> calls the comparator on pairs of elements. ECMAScript
  fixes its result only for a comparator that is consistent on the elements: then it
  is the sorted permutation that keeps elements comparing equal in their order. For
  any other comparator the order is left to the engine.

  A comparator is consistent on a set of values when, on that set, comparing equal is
  reflexive, symmetric and transitive, and comparing less and comparing greater are
  transitive.
\<close>

definition consistent_comparator :: "('a \<Rightarrow> 'a \<Rightarrow> int) \<Rightarrow> 'a set \<Rightarrow> bool" where
  "consistent_comparator cmp S =
     ((\<forall>a\<in>S. cmp a a = 0) \<and>
      (\<forall>a\<in>S. \<forall>b\<in>S. cmp a b = 0 \<longrightarrow> cmp b a = 0) \<and>
      (\<forall>a\<in>S. \<forall>b\<in>S. \<forall>c\<in>S. cmp a b = 0 \<and> cmp b c = 0 \<longrightarrow> cmp a c = 0) \<and>
      (\<forall>a\<in>S. \<forall>b\<in>S. \<forall>c\<in>S. cmp a b < 0 \<and> cmp b c < 0 \<longrightarrow> cmp a c < 0) \<and>
      (\<forall>a\<in>S. \<forall>b\<in>S. \<forall>c\<in>S. cmp a b > 0 \<and> cmp b c > 0 \<longrightarrow> cmp a c > 0))"

text \<open>
  The model is the sort of the V8 engine (\<^verbatim>\<open>third_party/v8/builtins/array-sort.tq\<close>)
  for arrays of fewer than 64 elements, which it treats as a single run:
  \<^verbatim>\<open>CountAndMakeRun\<close> finds the longest prefix that is non-descending or strictly
  descending, and reverses it if it is descending; \<^verbatim>\<open>BinaryInsertionSort\<close> then
  inserts each remaining element at the place a binary search finds for it. Arrays
  of 64 elements and more, which V8 cuts into several runs and merges, are taken as a
  single run too; for a consistent comparator the result is the same.
\<close>

fun run_length :: "('a \<Rightarrow> 'a \<Rightarrow> int) \<Rightarrow> bool \<Rightarrow> 'a \<Rightarrow> 'a list \<Rightarrow> nat" where
  "run_length cmp isDescending previousElement [] = 0"
| "run_length cmp isDescending previousElement (currentElement # rest) =
     (let order = cmp currentElement previousElement
      in if (if isDescending then order \<ge> 0 else order < 0) then 0
         else Suc (run_length cmp isDescending currentElement rest))"

definition CountAndMakeRun :: "('a \<Rightarrow> 'a \<Rightarrow> int) \<Rightarrow> 'a list \<Rightarrow> nat \<times> 'a list" where
  "CountAndMakeRun cmp workArray =
     (case workArray of
        elementHigh # elementLow # rest \<Rightarrow>
          (let isDescending = (cmp elementLow elementHigh < 0);
               runLength = 2 + run_length cmp isDescending elementLow rest
           in (runLength,
               if isDescending
               then rev (take runLength workArray) @ drop runLength workArray
               else workArray))
      | _ \<Rightarrow> (length workArray, workArray))"

function binary_search :: "('a \<Rightarrow> 'a \<Rightarrow> int) \<Rightarrow> 'a \<Rightarrow> 'a list \<Rightarrow> nat \<Rightarrow> nat \<Rightarrow> nat" where
  "binary_search cmp pivot workArray left right =
     (if left < right then
        (if cmp pivot (workArray ! (left + (right - left) div 2)) < 0
         then binary_search cmp pivot workArray left (left + (right - left) div 2)
         else binary_search cmp pivot workArray (left + (right - left) div 2 + 1) right)
      else left)"
  by pat_completeness auto
termination
  by (relation "measure (\<lambda>(cmp, pivot, workArray, left, right). right - left)") auto

declare binary_search.simps [simp del]

definition insert_pivot :: "('a \<Rightarrow> 'a \<Rightarrow> int) \<Rightarrow> 'a list \<Rightarrow> 'a \<Rightarrow> 'a list" where
  "insert_pivot cmp workArray pivot =
     (let left = binary_search cmp pivot workArray 0 (length workArray)
      in take left workArray @ pivot # drop left workArray)"

definition BinaryInsertionSort :: "('a \<Rightarrow> 'a \<Rightarrow> int) \<Rightarrow> 'a list \<Rightarrow> 'a list \<Rightarrow> 'a list" where
  "BinaryInsertionSort cmp run rest = foldl (insert_pivot cmp) run rest"

definition Array_sort :: "('a \<Rightarrow> 'a \<Rightarrow> int) \<Rightarrow> 'a list \<Rightarrow> 'a list" where
  "Array_sort cmp xs =
     (if length xs < 2 then xs
      else (let (runLength, workArray) = CountAndMakeRun cmp xs
            in BinaryInsertionSort cmp (take runLength workArray) (drop runLength workArray)))"

text \<open>The contents of \<^verbatim>\<open>sortedCampaigns\<close>.\<close>

definition sortedCampaigns :: "runtime \<Rightarrow> state \<Rightarrow> Campaign list" where
  "sortedCampaigns rt st =
     Array_sort (compareCampaigns rt (sortField st) (sortDirection st)) (campaigns st)"

text \<open>
  The comparator is consistent (a linear preorder) on a list whose comparison values
  are all finite numbers or all strings, as they are for records that have every
  field and valid dates.
\<close>

fun is_finite_number :: "jsval \<Rightarrow> bool" where
  "is_finite_number (Number (Fin x)) = True"
| "is_finite_number _ = False"

fun is_string :: "jsval \<Rightarrow> bool" where
  "is_string (String s) = True"
| "is_string _ = False"

definition consistent_keys :: "runtime \<Rightarrow> campaign_field \<Rightarrow> Campaign list \<Rightarrow> bool" where
  "consistent_keys rt sf cs =
     (list_all (\<lambda>c. is_finite_number (sortValue rt sf c)) cs \<or>
      list_all (\<lambda>c. is_string (sortValue rt sf c)) cs)"

subsection \<open>The sorted copy on the heap\<close>

text \<open>
  \<^verbatim>\<open>sort\<close> sorts the array it is called on in place and returns it, so the
  copy \<^verbatim>\<open>[...campaigns]\<close> matters. Arrays live in a heap; a reference is an index
  into it. The spread allocates a new array with the same elements.
\<close>

type_synonym ref = nat
type_synonym heap = "Campaign list list"

definition spread :: "heap \<Rightarrow> ref \<Rightarrow> ref \<times> heap" where
  "spread h r = (length h, h @ [h ! r])"

definition Array_prototype_sort ::
  "(Campaign \<Rightarrow> Campaign \<Rightarrow> int) \<Rightarrow> heap \<Rightarrow> ref \<Rightarrow> ref \<times> heap" where
  "Array_prototype_sort cmp h r = (r, h[r := Array_sort cmp (h ! r)])"

text \<open>
  \<^verbatim>\<open>const sortedCampaigns = [...campaigns].sort((a, b) => ...)\<close>, where \<open>r\<close> is the
  reference held in the state cell \<^verbatim>\<open>campaigns\<close>.
\<close>

definition sortedCampaigns_heap ::
  "runtime \<Rightarrow> campaign_field \<Rightarrow> direction \<Rightarrow> heap \<Rightarrow> ref \<Rightarrow> ref \<times> heap" where
  "sortedCampaigns_heap rt sf sd h r =
     (let (r', h') = spread h r
      in Array_prototype_sort (compareCampaigns rt sf sd) h' r')"

section \<open>A reference run time\<close>

text \<open>
  An instance of the two run-time functions, used to evaluate the model on concrete
  campaigns. \<open>Date_parse_iso\<close> reads the date-only forms of the ECMAScript date-time
  string format (\<^verbatim>\<open>YYYY\<close>, \<^verbatim>\<open>YYYY-MM\<close>, \<^verbatim>\<open>YYYY-MM-DD\<close>, the last one being what
  the form's date input produces) as UTC midnight in milliseconds since the epoch;
  a day that the calendar does not have, and every other string, is an invalid date
  in this instance.
  \<open>StringToNumber_decimal\<close> reads, between white space, a decimal literal with optional
  sign, fraction and exponent, \<^verbatim>\<open>Infinity\<close> with optional sign, or a binary, octal or
  hexadecimal integer literal, and rounds the value to binary64; the empty string is 0
  and every other string is \<open>NaN\<close>.
\<close>

definition is_digit :: "char \<Rightarrow> bool" where
  "is_digit c = (CHR ''0'' \<le> c \<and> c \<le> CHR ''9'')"

definition digit_value :: "char \<Rightarrow> nat" where
  "digit_value c = of_char c - of_char CHR ''0''"

definition digits_value :: "string \<Rightarrow> nat" where
  "digits_value ds = foldl (\<lambda>n c. 10 * n + digit_value c) 0 ds"

definition is_leap_year :: "int \<Rightarrow> bool" where
  "is_leap_year y = (y mod 4 = 0 \<and> (y mod 100 \<noteq> 0 \<or> y mod 400 = 0))"

definition days_in_month :: "int \<Rightarrow> int \<Rightarrow> int" where
  "days_in_month y m =
     (if m = 2 then (if is_leap_year y then 29 else 28)
      else if m = 4 \<or> m = 6 \<or> m = 9 \<or> m = 11 then 30 else 31)"

text \<open>The number of days from 1970-01-01 to the given day of the Gregorian calendar.\<close>

definition days_from_civil :: "int \<Rightarrow> int \<Rightarrow> int \<Rightarrow> int" where
  "days_from_civil y m d =
     (let y' = (if m \<le> 2 then y - 1 else y);
          era = y' div 400;
          yoe = y' - era * 400;
          mp = (m + 9) mod 12;
          doy = (153 * mp + 2) div 5 + d - 1;
          doe = yoe * 365 + yoe div 4 - yoe div 100 + doy
      in era * 146097 + doe - 719468)"

definition make_date :: "string \<Rightarrow> string \<Rightarrow> string \<Rightarrow> number" where
  "make_date ys ms ds =
     (if list_all is_digit (ys @ ms @ ds) then
        (let y = int (digits_value ys); m = int (digits_value ms); d = int (digits_value ds)
         in if 1 \<le> m \<and> m \<le> 12 \<and> 1 \<le> d \<and> d \<le> days_in_month y m
            then Fin (of_int (86400000 * days_from_civil y m d)) else NaN)
      else NaN)"

fun Date_parse_iso :: "string \<Rightarrow> number" where
  "Date_parse_iso [y1, y2, y3, y4] = make_date [y1, y2, y3, y4] ''01'' ''01''"
| "Date_parse_iso [y1, y2, y3, y4, h, m1, m2] =
     (if h = CHR ''-'' then make_date [y1, y2, y3, y4] [m1, m2] ''01'' else NaN)"
| "Date_parse_iso [y1, y2, y3, y4, h, m1, m2, h', d1, d2] =
     (if h = CHR ''-'' \<and> h' = CHR ''-'' then make_date [y1, y2, y3, y4] [m1, m2] [d1, d2]
      else NaN)"
| "Date_parse_iso _ = NaN"

definition is_space :: "char \<Rightarrow> bool" where
  "is_space c = (c = CHR '' '' \<or> (CHR 0x09 \<le> c \<and> c \<le> CHR 0x0D))"

definition trim :: "string \<Rightarrow> string" where
  "trim s = rev (dropWhile is_space (rev (dropWhile is_space s)))"

text \<open>\<open>m \<times> 10\<^sup>e\<close> for an integer exponent.\<close>

definition scale10 :: "real \<Rightarrow> int \<Rightarrow> real" where
  "scale10 m e = (if 0 \<le> e then m * 10 ^ nat e else m / 10 ^ nat (- e))"

text \<open>
  An unsigned decimal literal: digits, an optional fraction, an optional exponent.
  With \<open>strict\<close> the integer part is required, has no leading zero, and a decimal
  point is followed by a digit (the number grammar of JSON).
\<close>

definition split_sign :: "string \<Rightarrow> bool \<times> string" where
  "split_sign s =
     (case s of [] \<Rightarrow> (False, [])
      | c # r \<Rightarrow> if c = CHR ''-'' then (True, r) else if c = CHR ''+'' then (False, r)
                 else (False, s))"

definition exponent_part :: "string \<Rightarrow> (int \<times> string) option" where
  "exponent_part s =
     (case s of [] \<Rightarrow> Some (0, [])
      | c # r \<Rightarrow>
          if c = CHR ''e'' \<or> c = CHR ''E'' then
            (let (neg, r') = split_sign r; ds = takeWhile is_digit r'
             in if ds = [] then None
                else Some ((if neg then - int (digits_value ds) else int (digits_value ds)),
                           dropWhile is_digit r'))
          else Some (0, s))"

definition unsigned_decimal :: "bool \<Rightarrow> string \<Rightarrow> (real \<times> string) option" where
  "unsigned_decimal strict s =
     (let ip = takeWhile is_digit s; r = dropWhile is_digit s;
          has_point = (r \<noteq> [] \<and> hd r = CHR ''.'');
          fp = (if has_point then takeWhile is_digit (tl r) else []);
          r' = (if has_point then dropWhile is_digit (tl r) else r)
      in if ip = [] \<and> fp = [] then None
         else if strict \<and> (ip = [] \<or> (has_point \<and> fp = []) \<or> (length ip > 1 \<and> hd ip = CHR ''0''))
         then None
         else (case exponent_part r' of None \<Rightarrow> None
               | Some (e, r'') \<Rightarrow>
                   Some (scale10 (real (digits_value (ip @ fp))) (e - int (length fp)), r'')))"

text \<open>The integer literals \<^verbatim>\<open>0x...\<close>, \<^verbatim>\<open>0o...\<close> and \<^verbatim>\<open>0b...\<close>, which take no sign.\<close>

definition digit_of_radix :: "nat \<Rightarrow> char \<Rightarrow> nat option" where
  "digit_of_radix b c =
     (let d = (if is_digit c then digit_value c
               else if CHR ''a'' \<le> c \<and> c \<le> CHR ''f'' then of_char c - of_char CHR ''a'' + 10
               else if CHR ''A'' \<le> c \<and> c \<le> CHR ''F'' then of_char c - of_char CHR ''A'' + 10
               else b)
      in if d < b then Some d else None)"

fun radix_value :: "nat \<Rightarrow> nat \<Rightarrow> string \<Rightarrow> nat option" where
  "radix_value b n [] = Some n"
| "radix_value b n (c # cs) =
     (case digit_of_radix b c of None \<Rightarrow> None
      | Some d \<Rightarrow> radix_value b (b * n + d) cs)"

definition non_decimal_literal :: "string \<Rightarrow> nat option" where
  "non_decimal_literal t =
     (case t of
        z # p # d # ds \<Rightarrow>
          if z \<noteq> CHR ''0'' then None
          else if p = CHR ''x'' \<or> p = CHR ''X'' then radix_value 16 0 (d # ds)
          else if p = CHR ''o'' \<or> p = CHR ''O'' then radix_value 8 0 (d # ds)
          else if p = CHR ''b'' \<or> p = CHR ''B'' then radix_value 2 0 (d # ds)
          else None
      | _ \<Rightarrow> None)"

definition StringToNumber_decimal :: "string \<Rightarrow> number" where
  "StringToNumber_decimal s =
     (let t = trim s in
      if t = [] then Fin 0
      else (case non_decimal_literal t of
              Some n \<Rightarrow> number_of_real (real n)
            | None \<Rightarrow>
                (let (neg, u) = split_sign t
                 in if u = ''Infinity'' then (if neg then NegInfinity else PosInfinity)
                    else (case unsigned_decimal False u of
                            Some (x, []) \<Rightarrow> number_of_real (if neg then - x else x)
                          | _ \<Rightarrow> NaN))))"

definition ecmascript :: runtime where
  "ecmascript = \<lparr>Date_parse = Date_parse_iso, StringToNumber = StringToNumber_decimal\<rparr>"

section \<open>Persistence\<close>

text \<open>
  \<^verbatim>\<open>localStorage\<close> maps keys to strings. Reading an absent key yields \<^verbatim>\<open>null\<close>;
  writing replaces the value of the key. The store is taken to accept every write.
\<close>

type_synonym storage = "string \<Rightarrow> string option"

definition getItem :: "storage \<Rightarrow> string \<Rightarrow> string option" where
  "getItem ls k = ls k"

definition setItem :: "storage \<Rightarrow> string \<Rightarrow> string \<Rightarrow> storage" where
  "setItem ls k v = ls(k \<mapsto> v)"

text \<open>The values \<^verbatim>\<open>JSON.parse\<close> returns; an object is the list of its members as written.\<close>

datatype json =
  JNull
| JBool bool
| JNumber number
| JString string
| JArray "json list"
| JObject "(string \<times> json) list"

datatype error = SyntaxError

text \<open>
  What has become of the state cell \<^verbatim>\<open>campaigns\<close> when an effect does not end
  with a list of campaign records in it: an exception has left the effect (nothing in
  the component catches it), or \<^verbatim>\<open>setCampaigns\<close> has received a value that is no such
  list.
\<close>

datatype failure = Uncaught error | NotCampaigns json

text \<open>
  A parsed value seen through the type \<^verbatim>\<open>Campaign[]\<close>: an array of objects whose
  members are among the eight fields and have the declared types. The last of several
  members with the same key counts.
\<close>

definition member_value :: "(string \<times> json) list \<Rightarrow> string \<Rightarrow> json option" where
  "member_value kvs k = map_of (rev kvs) k"

fun string_member :: "json option \<Rightarrow> string option option" where
  "string_member None = Some None"
| "string_member (Some (JString s)) = Some (Some s)"
| "string_member (Some _) = None"

fun number_member :: "json option \<Rightarrow> number option option" where
  "number_member None = Some None"
| "number_member (Some (JNumber n)) = Some (Some n)"
| "number_member (Some _) = None"

definition field_names :: "string list" where
  "field_names =
     [''id'', ''name'', ''startDate'', ''endDate'', ''clicks'', ''cost'', ''revenue'', ''profit'']"

fun Campaign_of_json :: "json \<Rightarrow> Campaign option" where
  "Campaign_of_json (JObject kvs) =
     (if list_all (\<lambda>kv. fst kv \<in> set field_names) kvs then
        Option.bind (string_member (member_value kvs ''id'')) (\<lambda>i.
        Option.bind (string_member (member_value kvs ''name'')) (\<lambda>n.
        Option.bind (string_member (member_value kvs ''startDate'')) (\<lambda>s.
        Option.bind (string_member (member_value kvs ''endDate'')) (\<lambda>e.
        Option.bind (number_member (member_value kvs ''clicks'')) (\<lambda>k.
        Option.bind (number_member (member_value kvs ''cost'')) (\<lambda>c.
        Option.bind (number_member (member_value kvs ''revenue'')) (\<lambda>r.
        Option.bind (number_member (member_value kvs ''profit'')) (\<lambda>p.
          Some \<lparr>id' = i, name = n, startDate = s, endDate = e,
                clicks = k, cost = c, revenue = r, profit = p\<rparr>))))))))
      else None)"
| "Campaign_of_json _ = None"

fun those_campaigns :: "json list \<Rightarrow> Campaign list option" where
  "those_campaigns [] = Some []"
| "those_campaigns (v # vs) =
     (case Campaign_of_json v of None \<Rightarrow> None
      | Some c \<Rightarrow> map_option ((#) c) (those_campaigns vs))"

fun campaigns_of_json :: "json \<Rightarrow> Campaign list option" where
  "campaigns_of_json (JArray vs) = those_campaigns vs"
| "campaigns_of_json _ = None"

text \<open>
  The first effect, run once after the first render:
  \<^verbatim>\<open>const savedCampaigns = localStorage.getItem("campaigns")
  if (savedCampaigns) { setCampaigns(JSON.parse(savedCampaigns)) }\<close>.
  The empty string is falsy. \<^verbatim>\<open>JSON.parse\<close> is the parameter \<open>parse\<close>.
\<close>

definition load_effect ::
  "(string \<Rightarrow> error + json) \<Rightarrow> storage \<Rightarrow> state \<Rightarrow> failure + state" where
  "load_effect parse ls st =
     (case getItem ls ''campaigns'' of
        None \<Rightarrow> Inr st
      | Some savedCampaigns \<Rightarrow>
          if savedCampaigns = [] then Inr st
          else (case parse savedCampaigns of
                  Inl e \<Rightarrow> Inl (Uncaught e)
                | Inr v \<Rightarrow>
                    (case campaigns_of_json v of
                       None \<Rightarrow> Inl (NotCampaigns v)
                     | Some cs \<Rightarrow> Inr (st\<lparr>campaigns := cs\<rparr>))))"

text \<open>
  The second effect, run after every render in which the cell \<^verbatim>\<open>campaigns\<close> holds a
  new array:
  \<^verbatim>\<open>localStorage.setItem("campaigns", JSON.stringify(campaigns))\<close>.
  \<^verbatim>\<open>JSON.stringify\<close> on a list of campaigns is the parameter \<open>stringify\<close>.
\<close>

definition save_effect :: "(Campaign list \<Rightarrow> string) \<Rightarrow> state \<Rightarrow> storage \<Rightarrow> storage" where
  "save_effect stringify st ls = setItem ls ''campaigns'' (stringify (campaigns st))"

text \<open>
  The user's actions and what the component does on each: the handler runs, the
  component renders again, and the second effect runs if the handler has put a new
  array into \<^verbatim>\<open>campaigns\<close> (adding and deleting always do, sorting and the modal
  never do).
\<close>

datatype event =
  AddCampaign Campaign
| DeleteCampaign string
| Sort campaign_field
| SetModalOpen bool

fun handle :: "event \<Rightarrow> state \<Rightarrow> state" where
  "handle (AddCampaign campaign) st = handleAddCampaign campaign st"
| "handle (DeleteCampaign i) st = handleDeleteCampaign i st"
| "handle (Sort fld) st = handleSort fld st"
| "handle (SetModalOpen b) st = st\<lparr>isModalOpen := b\<rparr>"

fun sets_campaigns :: "event \<Rightarrow> bool" where
  "sets_campaigns (AddCampaign campaign) = True"
| "sets_campaigns (DeleteCampaign i) = True"
| "sets_campaigns _ = False"

definition dispatch ::
  "(Campaign list \<Rightarrow> string) \<Rightarrow> event \<Rightarrow> state \<times> storage \<Rightarrow> state \<times> storage" where
  "dispatch stringify ev w =
     (let st' = handle ev (fst w)
      in (st', if sets_campaigns ev then save_effect stringify st' (snd w) else snd w))"

subsection \<open>A reference JSON reader\<close>

text \<open>
  An instance of \<^verbatim>\<open>JSON.parse\<close> for concrete stored texts: the JSON grammar with
  white space, the three literals, numbers, strings with escapes, arrays and objects.
  A \<^verbatim>\<open>\u\<close> escape above the range of a byte is written as the bytes of its
  code unit. A number is kept as the real its literal denotes and is rounded where
  the field is read. The recursion carries fuel; twice the length of the text is enough, as
  each array or object takes a character.
\<close>

definition is_ws :: "char \<Rightarrow> bool" where
  "is_ws c = (c = CHR '' '' \<or> c = CHR 0x09 \<or> c = CHR 0x0A \<or> c = CHR 0x0D)"

definition skip_ws :: "string \<Rightarrow> string" where
  "skip_ws s = dropWhile is_ws s"

definition hex_value :: "char \<Rightarrow> nat option" where
  "hex_value c =
     (if is_digit c then Some (digit_value c)
      else if CHR ''a'' \<le> c \<and> c \<le> CHR ''f'' then Some (of_char c - of_char CHR ''a'' + 10)
      else if CHR ''A'' \<le> c \<and> c \<le> CHR ''F'' then Some (of_char c - of_char CHR ''A'' + 10)
      else None)"

definition hex4 :: "char \<Rightarrow> char \<Rightarrow> char \<Rightarrow> char \<Rightarrow> nat option" where
  "hex4 a b c d =
     (case (hex_value a, hex_value b, hex_value c, hex_value d) of
        (Some p, Some q, Some r, Some s) \<Rightarrow> Some (((p * 16 + q) * 16 + r) * 16 + s)
      | _ \<Rightarrow> None)"

definition code_unit_bytes :: "nat \<Rightarrow> string" where
  "code_unit_bytes n =
     (if n < 0x80 then [char_of n]
      else if n < 0x800 then [char_of (0xC0 + n div 64), char_of (0x80 + n mod 64)]
      else [char_of (0xE0 + n div 4096), char_of (0x80 + (n div 64) mod 64),
            char_of (0x80 + n mod 64)])"

definition escape_char :: "char \<Rightarrow> char option" where
  "escape_char e =
     (if e = CHR 0x22 \<or> e = CHR 0x5C \<or> e = CHR ''/'' then Some e
      else if e = CHR ''b'' then Some (CHR 0x08)
      else if e = CHR ''f'' then Some (CHR 0x0C)
      else if e = CHR ''n'' then Some (CHR 0x0A)
      else if e = CHR ''r'' then Some (CHR 0x0D)
      else if e = CHR ''t'' then Some (CHR 0x09)
      else None)"

text \<open>The rest of a string after its opening quote, and what follows the closing one.\<close>

fun string_body :: "string \<Rightarrow> (string \<times> string) option" where
  "string_body [] = None"
| "string_body [c] = (if c = CHR 0x22 then Some ([], []) else None)"
| "string_body (c # e # r) =
     (if c = CHR 0x22 then Some ([], e # r)
      else if c = CHR 0x5C then
        (if e = CHR ''u'' then
           (case r of
              h1 # h2 # h3 # h4 # r' \<Rightarrow>
                (case hex4 h1 h2 h3 h4 of None \<Rightarrow> None
                 | Some n \<Rightarrow> map_option (apfst ((@) (code_unit_bytes n))) (string_body r'))
            | _ \<Rightarrow> None)
         else (case escape_char e of None \<Rightarrow> None
               | Some x \<Rightarrow> map_option (apfst ((#) x)) (string_body r)))
      else if c < CHR 0x20 then None
      else map_option (apfst ((#) c)) (string_body (e # r)))"

fun parse_value :: "nat \<Rightarrow> string \<Rightarrow> (json \<times> string) option"
  and parse_elements :: "nat \<Rightarrow> string \<Rightarrow> (json list \<times> string) option"
  and parse_members :: "nat \<Rightarrow> string \<Rightarrow> ((string \<times> json) list \<times> string) option" where
  "parse_value 0 cs = None"
| "parse_value (Suc n) cs =
     (let s = skip_ws cs in
      case s of [] \<Rightarrow> None
      | c # r \<Rightarrow>
          if c = CHR ''['' then
            (let r1 = skip_ws r
             in if r1 \<noteq> [] \<and> hd r1 = CHR '']'' then Some (JArray [], tl r1)
                else map_option (apfst JArray) (parse_elements n r))
          else if c = CHR ''{'' then
            (let r1 = skip_ws r
             in if r1 \<noteq> [] \<and> hd r1 = CHR ''}'' then Some (JObject [], tl r1)
                else map_option (apfst JObject) (parse_members n r))
          else if c = CHR 0x22 then map_option (apfst JString) (string_body r)
          else if take 4 s = ''null'' then Some (JNull, drop 4 s)
          else if take 4 s = ''true'' then Some (JBool True, drop 4 s)
          else if take 5 s = ''false'' then Some (JBool False, drop 5 s)
          else if c = CHR ''-'' then
            map_option (apfst (\<lambda>x. JNumber (Fin (- x)))) (unsigned_decimal True r)
          else map_option (apfst (\<lambda>x. JNumber (Fin x))) (unsigned_decimal True s))"
| "parse_elements 0 cs = None"
| "parse_elements (Suc n) cs =
     (case parse_value n cs of None \<Rightarrow> None
      | Some (v, r) \<Rightarrow>
          (case skip_ws r of [] \<Rightarrow> None
           | c # r' \<Rightarrow>
               if c = CHR '','' then map_option (apfst ((#) v)) (parse_elements n r')
               else if c = CHR '']'' then Some ([v], r')
               else None))"
| "parse_members 0 cs = None"
| "parse_members (Suc n) cs =
     (case skip_ws cs of [] \<Rightarrow> None
      | q # r \<Rightarrow>
          if q = CHR 0x22 then
            (case string_body r of None \<Rightarrow> None
             | Some (k, r1) \<Rightarrow>
                 (case skip_ws r1 of [] \<Rightarrow> None
                  | c # r2 \<Rightarrow>
                      if c = CHR '':'' then
                        (case parse_value n r2 of None \<Rightarrow> None
                         | Some (v, r3) \<Rightarrow>
                             (case skip_ws r3 of [] \<Rightarrow> None
                              | d # r4 \<Rightarrow>
                                  if d = CHR '','' then
                                    map_option (apfst ((#) (k, v))) (parse_members n r4)
                                  else if d = CHR ''}'' then Some ([(k, v)], r4)
                                  else None))
                      else None))
          else None)"

definition JSON_parse :: "string \<Rightarrow> error + json" where
  "JSON_parse s =
     (case parse_value (2 * length s + 2) s of
        None \<Rightarrow> Inl SyntaxError
      | Some (v, r) \<Rightarrow> if skip_ws r = [] then Inr v else Inl SyntaxError)"

section \<open>Example data\<close>

text \<open>
  The two campaigns of the scenario of the specification, a third record that
  repeats the id of the first, and a record without dates, as a store written by
  other code can hold.
\<close>

definition campaign_a :: Campaign where
  "campaign_a =
     \<lparr>id' = Some ''a'', name = Some ''X'',
      startDate = Some ''2024-01-01'', endDate = Some ''2024-01-10'',
      clicks = Some (Fin 100), cost = Some (Fin 50), revenue = Some (Fin 80),
      profit = None\<rparr>"

definition campaign_b :: Campaign where
  "campaign_b =
     \<lparr>id' = Some ''b'', name = Some ''Y'',
      startDate = Some ''2024-02-01'', endDate = Some ''2024-02-10'',
      clicks = Some (Fin 200), cost = Some (Fin 10), revenue = Some (Fin 100),
      profit = None\<rparr>"

definition campaign_a2 :: Campaign where
  "campaign_a2 =
     \<lparr>id' = Some ''a'', name = Some ''Z'',
      startDate = Some ''2024-03-01'', endDate = Some ''2024-03-10'',
      clicks = Some (Fin 300), cost = Some (Fin 50), revenue = Some (Fin 80),
      profit = Some (Fin 999)\<rparr>"

definition campaign_undated :: Campaign where
  "campaign_undated =
     \<lparr>id' = Some ''c'', name = None,
      startDate = None, endDate = None,
      clicks = None, cost = Some (Fin 5), revenue = Some (Fin 7),
      profit = None\<rparr>"

definition campaign_500_300 :: Campaign where
  "campaign_500_300 =
     \<lparr>id' = Some ''p'', name = Some ''P'',
      startDate = Some ''2024-04-01'', endDate = Some ''2024-04-10'',
      clicks = Some (Fin 1), cost = Some (Fin 300), revenue = Some (Fin 500),
      profit = Some (Fin 1)\<rparr>"

text \<open>
  A record with an id and a start date and nothing else of interest, and a list of
  seven of them: one starting in February, three in January, one without a date, two
  more in January.
\<close>

definition campaign_dated :: "string \<Rightarrow> string option \<Rightarrow> Campaign" where
  "campaign_dated i d =
     \<lparr>id' = Some i, name = Some i, startDate = d, endDate = d,
      clicks = Some (Fin 0), cost = Some (Fin 0), revenue = Some (Fin 0), profit = None\<rparr>"

definition r0 :: Campaign where "r0 = campaign_dated ''r0'' (Some ''2024-02-01'')"
definition r1 :: Campaign where "r1 = campaign_dated ''r1'' (Some ''2024-01-01'')"
definition r2 :: Campaign where "r2 = campaign_dated ''r2'' (Some ''2024-01-01'')"
definition r3 :: Campaign where "r3 = campaign_dated ''r3'' (Some ''2024-01-01'')"
definition r4 :: Campaign where "r4 = campaign_dated ''r4'' None"
definition r5 :: Campaign where "r5 = campaign_dated ''r5'' (Some ''2024-01-01'')"
definition r6 :: Campaign where "r6 = campaign_dated ''r6'' (Some ''2024-01-01'')"

definition state_of :: "Campaign list \<Rightarrow> campaign_field \<Rightarrow> direction \<Rightarrow> state" where
  "state_of cs sf sd =
     \<lparr>campaigns = cs, sortField = sf, sortDirection = sd, isModalOpen = False\<rparr>"

definition storage_of :: "(string \<times> string) list \<Rightarrow> storage" where
  "storage_of kvs = map_of kvs"

text \<open>A text between double quotes, for writing stored JSON texts.\<close>

definition quoted :: "string \<Rightarrow> string" where
  "quoted s = CHR 0x22 # s @ [CHR 0x22]"

text \<open>The stored text \<^verbatim>\<open>[{"id":"a","cost":50}]\<close>.\<close>

definition stored_example :: string where
  "stored_example = ''[{'' @ quoted ''id'' @ '':'' @ quoted ''a'' @ '','' @ quoted ''cost'' @ '':50}]''"

text \<open>A sequence of adds, and a sequence of user actions.\<close>

definition add_all :: "Campaign list \<Rightarrow> state \<Rightarrow> state" where
  "add_all cs st = foldl (\<lambda>s c. handleAddCampaign c s) st cs"

definition run ::
  "(Campaign list \<Rightarrow> string) \<Rightarrow> event list \<Rightarrow> state \<times> storage \<Rightarrow> state \<times> storage" where
  "run stringify evs w = foldl (\<lambda>w ev. dispatch stringify ev w) w evs"

section \<open>Auxiliary facts\<close>

lemma to_binary64_numeral [simp]:
  "(numeral k :: real) \<le> 9007199254740992 \<Longrightarrow> to_binary64 (numeral k) = numeral k"
  "(numeral k :: real) \<le> 9007199254740992 \<Longrightarrow> to_binary64 (- numeral k) = - numeral k"
  "to_binary64 0 = 0"
  "to_binary64 1 = 1"
  by (simp_all add: to_binary64_def is_safe_integer_def)

lemma number_of_real_safe:
  assumes "is_safe_integer x"
  shows "number_of_real x = Fin x"
proof -
  have "(9007199254740992 :: real) < 2 ^ 1024"
    by simp
  with assms have "\<bar>x\<bar> < 2 ^ 1024"
    by (simp add: is_safe_integer_def)
  with assms show ?thesis
    by (simp add: number_of_real_def to_binary64_def Let_def abs_less_iff not_le)
qed

lemma number_of_real_numeral [simp]:
  "(numeral k :: real) \<le> 9007199254740992 \<Longrightarrow> number_of_real (numeral k) = Fin (numeral k)"
  "(numeral k :: real) \<le> 9007199254740992 \<Longrightarrow> number_of_real (- numeral k) = Fin (- numeral k)"
  "number_of_real 0 = Fin 0"
  "number_of_real 1 = Fin 1"
  by (simp_all add: number_of_real_safe is_safe_integer_def)

lemmas Array_sort_eval =
  Array_sort_def CountAndMakeRun_def BinaryInsertionSort_def insert_pivot_def
  binary_search.simps Let_def

lemma state_of_simps:
  "campaigns (state_of cs sf sd) = cs"
  "sortField (state_of cs sf sd) = sf"
  "sortDirection (state_of cs sf sd) = sd"
  by (simp_all add: state_of_def)

lemma js_less_irrefl: "\<not> js_less rt v v"
proof (cases v)
  case (Number n)
  then show ?thesis by (cases n) simp_all
qed simp_all

lemma compare_same_key:
  "sortValue rt sf a = sortValue rt sf b \<Longrightarrow> compareCampaigns rt sf sd a b = 0"
  by (simp add: compareCampaigns_def Let_def js_less_irrefl)

lemma mset_take_drop: "mset (take n xs) + mset (drop n xs) = mset xs"
proof -
  have "mset (take n xs @ drop n xs) = mset xs" by simp
  then show ?thesis by (simp only: mset_append)
qed

lemma mset_rev_take_drop: "mset (rev (take n xs) @ drop n xs) = mset xs"
  using mset_take_drop [of n xs] by (simp only: mset_append mset_rev)

lemma insert_pivot_mset: "mset (insert_pivot cmp s p) = add_mset p (mset s)"
proof -
  have "mset (take k s @ p # drop k s) = add_mset p (mset (take k s) + mset (drop k s))" for k
    by simp
  then show ?thesis by (simp only: insert_pivot_def Let_def mset_take_drop)
qed

lemma BinaryInsertionSort_mset: "mset (BinaryInsertionSort cmp s rest) = mset s + mset rest"
  unfolding BinaryInsertionSort_def
  by (induction rest arbitrary: s) (simp_all add: insert_pivot_mset)


lemma CountAndMakeRun_cases:
  obtains "length xs < 2" "CountAndMakeRun cmp xs = (length xs, xs)"
  | n where "2 \<le> n" "CountAndMakeRun cmp xs = (n, xs)"
  | n where "2 \<le> n" "CountAndMakeRun cmp xs = (n, rev (take n xs) @ drop n xs)"
proof (cases xs)
  case Nil
  then show ?thesis using that(1) by (simp add: CountAndMakeRun_def)
next
  case (Cons a ys)
  show ?thesis
  proof (cases ys)
    case Nil
    with Cons show ?thesis using that(1) by (simp add: CountAndMakeRun_def)
  next
    case (Cons b zs)
    show ?thesis
    proof (cases "cmp b a < 0")
      case True
      with Cons \<open>xs = a # ys\<close>
      have "CountAndMakeRun cmp xs
            = (2 + run_length cmp True b zs,
               rev (take (2 + run_length cmp True b zs) xs) @ drop (2 + run_length cmp True b zs) xs)"
        by (simp only: CountAndMakeRun_def list.case Let_def if_True)
      then show ?thesis using that(3) [of "2 + run_length cmp True b zs"] by simp
    next
      case False
      with Cons \<open>xs = a # ys\<close>
      have "CountAndMakeRun cmp xs = (2 + run_length cmp False b zs, xs)"
        by (simp only: CountAndMakeRun_def list.case Let_def if_False)
      then show ?thesis using that(2) [of "2 + run_length cmp False b zs"] by simp
    qed
  qed
qed

lemma CountAndMakeRun_mset: "mset (snd (CountAndMakeRun cmp xs)) = mset xs"
  by (rule CountAndMakeRun_cases [of xs cmp]) (simp_all only: snd_conv mset_rev_take_drop)

lemma mset_Array_sort: "mset (Array_sort cmp xs) = mset xs"
proof (cases "length xs < 2")
  case True
  then show ?thesis by (simp add: Array_sort_def)
next
  case False
  obtain n ys where c: "CountAndMakeRun cmp xs = (n, ys)" by (cases "CountAndMakeRun cmp xs")
  then have "mset ys = mset xs" using CountAndMakeRun_mset [of cmp xs] by simp
  moreover from False c
  have "Array_sort cmp xs = BinaryInsertionSort cmp (take n ys) (drop n ys)"
    by (simp add: Array_sort_def)
  ultimately show ?thesis
    by (simp only: BinaryInsertionSort_mset mset_take_drop)
qed

lemma run_length_map:
  assumes "\<And>x y. cmp (g x) (g y) = cmp x y"
  shows "run_length cmp d (g p) (map g xs) = run_length cmp d p xs"
  by (induction xs arbitrary: p) (simp_all add: assms Let_def)

lemma binary_search_le: "left \<le> right \<Longrightarrow> binary_search cmp p s left right \<le> right"
proof (induction cmp p s left right rule: binary_search.induct)
  case (1 cmp pivot workArray left right)
  show ?case
  proof (cases "left < right")
    case True
    then have m: "left + (right - left) div 2 < right" by linarith
    show ?thesis
    proof (cases "cmp pivot (workArray ! (left + (right - left) div 2)) < 0")
      case c: True
      have "binary_search cmp pivot workArray left (left + (right - left) div 2)
              \<le> left + (right - left) div 2"
        using "1.IH"(1) [OF True c] by simp
      with True c m show ?thesis by (subst binary_search.simps) simp
    next
      case c: False
      have "binary_search cmp pivot workArray (left + (right - left) div 2 + 1) right \<le> right"
        using "1.IH"(2) [OF True c] m by simp
      with True c show ?thesis by (subst binary_search.simps) simp
    qed
  next
    case False
    with "1.prems" show ?thesis by (subst binary_search.simps) simp
  qed
qed

lemma binary_search_map:
  "(\<And>x y. cmp (g x) (g y) = cmp x y) \<Longrightarrow> right \<le> length s \<Longrightarrow>
         binary_search cmp (g p) (map g s) left right = binary_search cmp p s left right"
proof (induction cmp p s left right rule: binary_search.induct)
  case (1 cmp' pivot workArray left right)
  show ?case
  proof (cases "left < right")
    case True
    then have m: "left + (right - left) div 2 < right" by linarith
    with "1.prems"(2) have n: "map g workArray ! (left + (right - left) div 2)
        = g (workArray ! (left + (right - left) div 2))"
      by simp
    show ?thesis
    proof (cases "cmp' pivot (workArray ! (left + (right - left) div 2)) < 0")
      case c: True
      have "binary_search cmp' (g pivot) (map g workArray) left (left + (right - left) div 2)
            = binary_search cmp' pivot workArray left (left + (right - left) div 2)"
        using "1.IH"(1) [OF True c] m "1.prems" by simp
      with True c n "1.prems"(1) show ?thesis
        by (subst binary_search.simps, subst (2) binary_search.simps) simp
    next
      case c: False
      have "binary_search cmp' (g pivot) (map g workArray) (left + (right - left) div 2 + 1) right
            = binary_search cmp' pivot workArray (left + (right - left) div 2 + 1) right"
        using "1.IH"(2) [OF True c] "1.prems" by simp
      with True c n "1.prems"(1) show ?thesis
        by (subst binary_search.simps, subst (2) binary_search.simps) simp
    qed
  next
    case False
    then show ?thesis by (subst binary_search.simps, subst (2) binary_search.simps) simp
  qed
qed


lemma insert_pivot_map:
  assumes "\<And>x y. cmp (g x) (g y) = cmp x y"
  shows "insert_pivot cmp (map g s) (g p) = map g (insert_pivot cmp s p)"
proof -
  have "binary_search cmp (g p) (map g s) 0 (length s) = binary_search cmp p s 0 (length s)"
    by (rule binary_search_map) (simp_all add: assms)
  then show ?thesis
    by (simp add: insert_pivot_def Let_def take_map drop_map)
qed

lemma BinaryInsertionSort_map:
  assumes "\<And>x y. cmp (g x) (g y) = cmp x y"
  shows "BinaryInsertionSort cmp (map g s) (map g rest) = map g (BinaryInsertionSort cmp s rest)"
  unfolding BinaryInsertionSort_def
  by (induction rest arbitrary: s) (simp_all add: insert_pivot_map assms)

lemma CountAndMakeRun_map:
  assumes "\<And>x y. cmp (g x) (g y) = cmp x y"
  shows "CountAndMakeRun cmp (map g xs)
           = (fst (CountAndMakeRun cmp xs), map g (snd (CountAndMakeRun cmp xs)))"
proof (cases xs)
  case Nil
  then show ?thesis by (simp add: CountAndMakeRun_def)
next
  case (Cons a ys)
  show ?thesis
  proof (cases ys)
    case Nil
    with Cons show ?thesis by (simp add: CountAndMakeRun_def)
  next
    case (Cons b zs)
    have r: "run_length cmp d (g b) (map g zs) = run_length cmp d b zs" for d
      by (rule run_length_map) (rule assms)
    have m: "rev (take n (map g xs)) @ drop n (map g xs) = map g (rev (take n xs) @ drop n xs)"
      for n
      by (simp add: take_map drop_map rev_map)
    have "CountAndMakeRun cmp (map g xs)
          = (2 + run_length cmp (cmp b a < 0) b zs,
             if cmp b a < 0
             then rev (take (2 + run_length cmp (cmp b a < 0) b zs) (map g xs))
                  @ drop (2 + run_length cmp (cmp b a < 0) b zs) (map g xs)
             else map g xs)"
      unfolding \<open>xs = a # ys\<close> Cons
      by (simp only: CountAndMakeRun_def list.case list.map Let_def assms r)
    moreover have "CountAndMakeRun cmp xs
          = (2 + run_length cmp (cmp b a < 0) b zs,
             if cmp b a < 0
             then rev (take (2 + run_length cmp (cmp b a < 0) b zs) xs)
                  @ drop (2 + run_length cmp (cmp b a < 0) b zs) xs
             else xs)"
      unfolding \<open>xs = a # ys\<close> Cons
      by (simp only: CountAndMakeRun_def list.case Let_def)
    ultimately show ?thesis by (simp only: m fst_conv snd_conv if_distrib [of "map g"] split: if_splits)
  qed
qed

lemma Array_sort_map:
  assumes "\<And>x y. cmp (g x) (g y) = cmp x y"
  shows "Array_sort cmp (map g xs) = map g (Array_sort cmp xs)"
proof (cases "length xs < 2")
  case True
  then show ?thesis by (simp add: Array_sort_def)
next
  case False
  obtain n ys where c: "CountAndMakeRun cmp xs = (n, ys)" by (cases "CountAndMakeRun cmp xs")
  then have c': "CountAndMakeRun cmp (map g xs) = (n, map g ys)"
    using CountAndMakeRun_map [of cmp g xs, OF assms] by simp
  from False c have "Array_sort cmp xs = BinaryInsertionSort cmp (take n ys) (drop n ys)"
    by (simp add: Array_sort_def)
  moreover from False c'
  have "Array_sort cmp (map g xs)
        = BinaryInsertionSort cmp (map g (take n ys)) (map g (drop n ys))"
    by (simp add: Array_sort_def take_map drop_map)
  ultimately show ?thesis
    by (simp only: BinaryInsertionSort_map [of cmp g, OF assms])
qed

lemma consistent_flip:
  assumes "consistent_comparator cmp S" "a \<in> S" "b \<in> S"
  shows "cmp a b < 0 \<longleftrightarrow> cmp b a > 0"
proof
  assume lt: "cmp a b < 0"
  show "cmp b a > 0"
  proof (rule ccontr)
    assume "\<not> cmp b a > 0"
    then consider "cmp b a < 0" | "cmp b a = 0" by linarith
    then show False
    proof cases
      case 1
      with lt assms have "cmp a a < 0" unfolding consistent_comparator_def by blast
      moreover from assms have "cmp a a = 0" unfolding consistent_comparator_def by blast
      ultimately show False by simp
    next
      case 2
      with assms have "cmp a b = 0" unfolding consistent_comparator_def by blast
      with lt show False by simp
    qed
  qed
next
  assume gt: "cmp b a > 0"
  show "cmp a b < 0"
  proof (rule ccontr)
    assume "\<not> cmp a b < 0"
    then consider "cmp a b > 0" | "cmp a b = 0" by linarith
    then show False
    proof cases
      case 1
      with gt assms have "cmp b b > 0" unfolding consistent_comparator_def by blast
      moreover from assms have "cmp b b = 0" unfolding consistent_comparator_def by blast
      ultimately show False by simp
    next
      case 2
      with assms have "cmp b a = 0" unfolding consistent_comparator_def by blast
      with gt show False by simp
    qed
  qed
qed

lemma consistent_le_trans:
  assumes con: "consistent_comparator cmp S" and S: "a \<in> S" "b \<in> S" "c \<in> S"
    and ab: "cmp a b \<le> 0" and bc: "cmp b c \<le> 0"
  shows "cmp a c \<le> 0"
proof (rule ccontr)
  assume "\<not> cmp a c \<le> 0"
  then have ac: "cmp a c > 0" by simp
  then have ca: "cmp c a < 0" using consistent_flip [OF con S(3) S(1)] by simp
  consider "cmp a b < 0" | "cmp a b = 0" using ab by linarith
  then show False
  proof cases
    case 1
    with ca con S have "cmp c b < 0" unfolding consistent_comparator_def by blast
    then have "cmp b c > 0" using consistent_flip [OF con S(3) S(2)] by simp
    with bc show False by simp
  next
    case ab0: 2
    consider "cmp b c < 0" | "cmp b c = 0" using bc by linarith
    then show False
    proof cases
      case 1
      with ca con S have "cmp b a < 0" unfolding consistent_comparator_def by blast
      moreover from ab0 con S have "cmp b a = 0" unfolding consistent_comparator_def by blast
      ultimately show False by simp
    next
      case 2
      with ab0 con S have "cmp a c = 0" unfolding consistent_comparator_def by blast
      with ac show False by simp
    qed
  qed
qed

lemma consistent_lt_le_trans:
  assumes con: "consistent_comparator cmp S" and S: "a \<in> S" "b \<in> S" "c \<in> S"
    and ab: "cmp a b < 0" and bc: "cmp b c \<le> 0"
  shows "cmp a c < 0"
proof (rule ccontr)
  assume "\<not> cmp a c < 0"
  then have "cmp c a \<le> 0" using consistent_flip [OF con S(1) S(3)] by simp
  with bc have "cmp b a \<le> 0" using consistent_le_trans [OF con S(2) S(3) S(1)] by simp
  moreover from ab have "cmp b a > 0" using consistent_flip [OF con S(1) S(2)] by simp
  ultimately show False by simp
qed

lemma consistent_ge_iff:
  assumes "consistent_comparator cmp S" "a \<in> S" "b \<in> S"
  shows "cmp a b \<ge> 0 \<longleftrightarrow> cmp b a \<le> 0"
  using consistent_flip [OF assms] consistent_flip [OF assms(1) assms(3) assms(2)] by linarith


lemma run_length_le: "run_length cmp d prev xs \<le> length xs"
  by (induction xs arbitrary: prev) (simp_all add: Let_def)

lemma run_ascending:
  assumes con: "consistent_comparator cmp S"
  shows "prev \<in> S \<Longrightarrow> set xs \<subseteq> S \<Longrightarrow>
         sorted_wrt (\<lambda>a b. cmp a b \<le> 0) (prev # take (run_length cmp False prev xs) xs)"
proof (induction xs arbitrary: prev)
  case Nil
  then show ?case by simp
next
  case (Cons x xs)
  show ?case
  proof (cases "cmp x prev < 0")
    case True
    then show ?thesis by simp
  next
    case False
    from Cons.prems have xS: "x \<in> S" and xsS: "set xs \<subseteq> S" by auto
    from False have px: "cmp prev x \<le> 0"
      using consistent_ge_iff [OF con xS Cons.prems(1)] by simp
    have IH: "sorted_wrt (\<lambda>a b. cmp a b \<le> 0) (x # take (run_length cmp False x xs) xs)"
      using Cons.IH [OF xS xsS] .
    have "cmp prev y \<le> 0" if "y \<in> set (take (run_length cmp False x xs) xs)" for y
    proof -
      from that have yS: "y \<in> S" using xsS by (meson in_set_takeD subsetD)
      from IH that have "cmp x y \<le> 0" by simp
      with px show ?thesis using consistent_le_trans [OF con Cons.prems(1) xS yS] by simp
    qed
    with False px IH show ?thesis by (simp add: Let_def)
  qed
qed

lemma run_descending:
  assumes con: "consistent_comparator cmp S"
  shows "prev \<in> S \<Longrightarrow> set xs \<subseteq> S \<Longrightarrow>
         sorted_wrt (\<lambda>a b. cmp b a < 0) (prev # take (run_length cmp True prev xs) xs)"
proof (induction xs arbitrary: prev)
  case Nil
  then show ?case by simp
next
  case (Cons x xs)
  show ?case
  proof (cases "cmp x prev \<ge> 0")
    case True
    then show ?thesis by simp
  next
    case False
    from Cons.prems have xS: "x \<in> S" and xsS: "set xs \<subseteq> S" by auto
    from False have xp: "cmp x prev < 0" by simp
    have IH: "sorted_wrt (\<lambda>a b. cmp b a < 0) (x # take (run_length cmp True x xs) xs)"
      using Cons.IH [OF xS xsS] .
    have "cmp y prev < 0" if "y \<in> set (take (run_length cmp True x xs) xs)" for y
    proof -
      from that have yS: "y \<in> S" using xsS by (meson in_set_takeD subsetD)
      from IH that have "cmp y x < 0" by simp
      with xp con yS xS Cons.prems(1) show ?thesis
        unfolding consistent_comparator_def by blast
    qed
    with False xp IH show ?thesis by (simp add: Let_def)
  qed
qed

lemma filter_rev_singleton:
  "sorted_wrt (\<lambda>x y. \<not> (P x \<and> P y)) p \<Longrightarrow> filter P (rev p) = filter P p"
proof (induction p)
  case Nil
  then show ?case by simp
next
  case (Cons x p)
  show ?case
  proof (cases "P x")
    case True
    with Cons.prems have "\<forall>y\<in>set p. \<not> P y" by simp
    then have "filter P p = []" by (simp add: filter_empty_conv)
    with Cons True show ?thesis by simp
  next
    case False
    with Cons show ?thesis by simp
  qed
qed

text \<open>The run found by CountAndMakeRun is sorted and keeps ties in order.\<close>

lemma CountAndMakeRun_sorted:
  assumes con: "consistent_comparator cmp S" and S: "set xs \<subseteq> S"
    and P: "\<And>x y. P x \<Longrightarrow> P y \<Longrightarrow> cmp x y = 0"
    and c: "CountAndMakeRun cmp xs = (n, ys)"
  shows "sorted_wrt (\<lambda>a b. cmp a b \<le> 0) (take n ys) \<and>
         filter P (take n ys) = filter P (take n xs) \<and> drop n ys = drop n xs \<and>
         length ys = length xs"
proof (cases xs)
  case Nil
  with c show ?thesis by (simp add: CountAndMakeRun_def)
next
  case (Cons a zs)
  note xs = this
  show ?thesis
  proof (cases zs)
    case Nil
    with xs c show ?thesis by (auto simp add: CountAndMakeRun_def)
  next
    case (Cons b rest)
    from S xs Cons have aS: "a \<in> S" and bS: "b \<in> S" and rS: "set rest \<subseteq> S" by auto
    show ?thesis
    proof (cases "cmp b a < 0")
      case True
      define m where "m = run_length cmp True b rest"
      have "CountAndMakeRun cmp xs = (2 + m, rev (take (2 + m) xs) @ drop (2 + m) xs)"
        unfolding xs Cons m_def using True
        by (simp only: CountAndMakeRun_def list.case Let_def if_True)
      with c have "(n, ys) = (2 + m, rev (take (2 + m) xs) @ drop (2 + m) xs)"
        by (simp only:)
      then have n: "n = 2 + m" and ys0: "ys = rev (take (2 + m) xs) @ drop (2 + m) xs"
        by blast+
      from ys0 have ys: "ys = rev (take n xs) @ drop n xs"
        by (simp only: n)
      have tk: "take n xs = a # b # take m rest"
        by (simp add: n xs Cons)
      have nl: "n \<le> length xs"
        using run_length_le [of cmp True b rest] by (simp add: n m_def xs Cons)
      have "sorted_wrt (\<lambda>a b. cmp b a < 0) (b # take m rest)"
        unfolding m_def using run_descending [OF con bS rS] .
      moreover have "cmp y a < 0" if "y \<in> set (take m rest)" for y
      proof -
        from that have yS: "y \<in> S" using rS by (meson in_set_takeD subsetD)
        from \<open>sorted_wrt (\<lambda>a b. cmp b a < 0) (b # take m rest)\<close> that have "cmp y b < 0" by simp
        with True con yS bS aS show ?thesis unfolding consistent_comparator_def by blast
      qed
      ultimately have desc: "sorted_wrt (\<lambda>a b. cmp b a < 0) (take n xs)"
        using True by (simp add: tk)
      then have "sorted_wrt (\<lambda>a b. cmp a b < 0) (rev (take n xs))"
        by (simp add: sorted_wrt_rev)
      then have s: "sorted_wrt (\<lambda>a b. cmp a b \<le> 0) (rev (take n xs))"
        by (rule sorted_wrt_mono_rel [rotated]) simp
      from desc have "sorted_wrt (\<lambda>x y. \<not> (P x \<and> P y)) (take n xs)"
        by (rule sorted_wrt_mono_rel [rotated]) (use P in force)
      then have f: "filter P (rev (take n xs)) = filter P (take n xs)"
        by (rule filter_rev_singleton)
      have t: "take n ys = rev (take n xs)" and d: "drop n ys = drop n xs"
        unfolding ys using nl by simp_all
      have l: "length ys = length xs"
        unfolding ys by simp
      show ?thesis
        by (intro conjI) (simp_all only: t d l s f)
    next
      case False
      define m where "m = run_length cmp False b rest"
      have "CountAndMakeRun cmp xs = (2 + m, xs)"
        unfolding xs Cons m_def using False
        by (simp only: CountAndMakeRun_def list.case Let_def if_False)
      with c have "(n, ys) = (2 + m, xs)"
        by (simp only:)
      then have n: "n = 2 + m" and ys: "ys = xs"
        by blast+
      have tk: "take n xs = a # b # take m rest"
        by (simp add: n xs Cons)
      from False have ab: "cmp a b \<le> 0" using consistent_ge_iff [OF con bS aS] by simp
      have asc: "sorted_wrt (\<lambda>a b. cmp a b \<le> 0) (b # take m rest)"
        unfolding m_def using run_ascending [OF con bS rS] .
      moreover have "cmp a y \<le> 0" if "y \<in> set (take m rest)" for y
      proof -
        from that have yS: "y \<in> S" using rS by (meson in_set_takeD subsetD)
        from asc that have "cmp b y \<le> 0" by simp
        with ab show ?thesis using consistent_le_trans [OF con aS bS yS] by simp
      qed
      ultimately have "sorted_wrt (\<lambda>a b. cmp a b \<le> 0) (take n xs)"
        using ab by (simp add: tk)
      then show ?thesis by (simp add: ys)
    qed
  qed
qed

lemma binary_search_split:
  assumes con: "consistent_comparator cmp S" and pS: "p \<in> S"
  shows "set s \<subseteq> S \<Longrightarrow> sorted_wrt (\<lambda>a b. cmp a b \<le> 0) s \<Longrightarrow>
         left \<le> right \<Longrightarrow> right \<le> length s \<Longrightarrow>
         (\<forall>i<left. cmp p (s ! i) \<ge> 0) \<Longrightarrow>
         (\<forall>j. right \<le> j \<and> j < length s \<longrightarrow> cmp p (s ! j) < 0) \<Longrightarrow>
         left \<le> binary_search cmp p s left right \<and> binary_search cmp p s left right \<le> right \<and>
         (\<forall>i<binary_search cmp p s left right. cmp p (s ! i) \<ge> 0) \<and>
         (\<forall>j. binary_search cmp p s left right \<le> j \<and> j < length s \<longrightarrow> cmp p (s ! j) < 0)"
  using con pS
proof (induction cmp p s left right rule: binary_search.induct)
  case (1 cmp pivot workArray left right)
  note con = "1.prems"(7) and pS = "1.prems"(8)
  let ?mid = "left + (right - left) div 2"
  show ?case
  proof (cases "left < right")
    case False
    with "1.prems" show ?thesis by (subst (1 2 3 4) binary_search.simps) simp
  next
    case True
    then have m: "left \<le> ?mid" "?mid < right" by linarith+
    with "1.prems"(4) have ml: "?mid < length workArray" by simp
    then have mS: "workArray ! ?mid \<in> S" using "1.prems"(1) by (meson nth_mem subsetD)
    show ?thesis
    proof (cases "cmp pivot (workArray ! ?mid) < 0")
      case c: True
      have hi: "\<forall>j. ?mid \<le> j \<and> j < length workArray \<longrightarrow> cmp pivot (workArray ! j) < 0"
      proof (intro allI impI)
        fix j assume j: "?mid \<le> j \<and> j < length workArray"
        then have jS: "workArray ! j \<in> S" using "1.prems"(1) by (meson nth_mem subsetD)
        have "cmp (workArray ! ?mid) (workArray ! j) \<le> 0"
        proof (cases "?mid = j")
          case True
          with con mS show ?thesis unfolding consistent_comparator_def by simp
        next
          case False
          with j have "?mid < j" by simp
          with "1.prems"(2) j show ?thesis by (simp add: sorted_wrt_iff_nth_less)
        qed
        with c show "cmp pivot (workArray ! j) < 0"
          using consistent_lt_le_trans [OF con pS mS jS] by simp
      qed
      have "left \<le> binary_search cmp pivot workArray left ?mid \<and>
            binary_search cmp pivot workArray left ?mid \<le> ?mid \<and>
            (\<forall>i<binary_search cmp pivot workArray left ?mid. cmp pivot (workArray ! i) \<ge> 0) \<and>
            (\<forall>j. binary_search cmp pivot workArray left ?mid \<le> j \<and> j < length workArray
                 \<longrightarrow> cmp pivot (workArray ! j) < 0)"
        using "1.IH"(1) [OF True c "1.prems"(1) "1.prems"(2) m(1) _ "1.prems"(5) hi con pS] ml
        by simp
      moreover have "binary_search cmp pivot workArray left right
                     = binary_search cmp pivot workArray left ?mid"
        using True c by (subst binary_search.simps) simp
      ultimately show ?thesis using m by simp
    next
      case c: False
      have lo: "\<forall>i<?mid + 1. cmp pivot (workArray ! i) \<ge> 0"
      proof (intro allI impI)
        fix i assume i: "i < ?mid + 1"
        with ml have il: "i < length workArray" by simp
        then have iS: "workArray ! i \<in> S" using "1.prems"(1) by (meson nth_mem subsetD)
        have "cmp (workArray ! i) (workArray ! ?mid) \<le> 0"
        proof (cases "i = ?mid")
          case True
          with con mS show ?thesis unfolding consistent_comparator_def by simp
        next
          case False
          with i have "i < ?mid" by simp
          with "1.prems"(2) ml show ?thesis by (simp add: sorted_wrt_iff_nth_less)
        qed
        moreover from c have "cmp (workArray ! ?mid) pivot \<le> 0"
          using consistent_ge_iff [OF con pS mS] by simp
        ultimately have "cmp (workArray ! i) pivot \<le> 0"
          using consistent_le_trans [OF con iS mS pS] by simp
        then show "cmp pivot (workArray ! i) \<ge> 0"
          using consistent_ge_iff [OF con pS iS] by simp
      qed
      have "?mid + 1 \<le> binary_search cmp pivot workArray (?mid + 1) right \<and>
            binary_search cmp pivot workArray (?mid + 1) right \<le> right \<and>
            (\<forall>i<binary_search cmp pivot workArray (?mid + 1) right. cmp pivot (workArray ! i) \<ge> 0) \<and>
            (\<forall>j. binary_search cmp pivot workArray (?mid + 1) right \<le> j \<and> j < length workArray
                 \<longrightarrow> cmp pivot (workArray ! j) < 0)"
        using "1.IH"(2) [OF True c "1.prems"(1) "1.prems"(2) _ "1.prems"(4) lo "1.prems"(6) con pS] m
        by simp
      moreover have "binary_search cmp pivot workArray left right
                     = binary_search cmp pivot workArray (?mid + 1) right"
        using True c by (subst binary_search.simps) simp
      ultimately show ?thesis using m by simp
    qed
  qed
qed

lemma insert_pivot_sorted:
  assumes con: "consistent_comparator cmp S" and pS: "p \<in> S" and sS: "set s \<subseteq> S"
    and srt: "sorted_wrt (\<lambda>a b. cmp a b \<le> 0) s"
    and P: "\<And>x y. P x \<Longrightarrow> P y \<Longrightarrow> cmp x y = 0"
  shows "sorted_wrt (\<lambda>a b. cmp a b \<le> 0) (insert_pivot cmp s p) \<and>
         filter P (insert_pivot cmp s p) = filter P (s @ [p])"
proof -
  define k where "k = binary_search cmp p s 0 (length s)"
  have split: "k \<le> length s \<and> (\<forall>i<k. cmp p (s ! i) \<ge> 0) \<and>
               (\<forall>j. k \<le> j \<and> j < length s \<longrightarrow> cmp p (s ! j) < 0)"
    unfolding k_def using binary_search_split [OF con pS sS srt, of 0 "length s"] by simp
  have ip: "insert_pivot cmp s p = take k s @ p # drop k s"
    by (simp add: insert_pivot_def k_def Let_def)
  have before: "cmp x p \<le> 0" if "x \<in> set (take k s)" for x
  proof -
    from that obtain i where "i < length (take k s)" "take k s ! i = x"
      by (auto simp add: in_set_conv_nth)
    then have i: "i < k" "i < length s" "x = s ! i" by simp_all
    then have xS: "x \<in> S" using sS by (meson nth_mem subsetD)
    from split i have "cmp p x \<ge> 0" by simp
    then show ?thesis using consistent_ge_iff [OF con pS xS] by simp
  qed
  have after: "cmp p x < 0" if "x \<in> set (drop k s)" for x
  proof -
    from that obtain i where i: "i < length (drop k s)" "drop k s ! i = x"
      by (auto simp add: in_set_conv_nth)
    with split have "k + i < length s" "x = s ! (k + i)" by simp_all
    with split show ?thesis by simp
  qed
  from srt have "sorted_wrt (\<lambda>a b. cmp a b \<le> 0) (take k s @ drop k s)" by simp
  then have parts: "sorted_wrt (\<lambda>a b. cmp a b \<le> 0) (take k s)"
    "sorted_wrt (\<lambda>a b. cmp a b \<le> 0) (drop k s)"
    "\<forall>x\<in>set (take k s). \<forall>y\<in>set (drop k s). cmp x y \<le> 0"
    unfolding sorted_wrt_append by blast+
  have "sorted_wrt (\<lambda>a b. cmp a b \<le> 0) (take k s @ p # drop k s)"
  proof -
    have "cmp p y \<le> 0" if "y \<in> set (drop k s)" for y
      using after [OF that] by simp
    with parts before show ?thesis
      by (simp add: sorted_wrt_append)
  qed
  moreover have "filter P (take k s @ p # drop k s) = filter P (s @ [p])"
  proof (cases "P p")
    case True
    have "\<not> P x" if "x \<in> set (drop k s)" for x
      using after [OF that] P [OF True, of x] by auto
    then have "filter P (drop k s) = []" by (simp add: filter_empty_conv)
    moreover have "filter P s = filter P (take k s) @ filter P (drop k s)"
      using filter_append [of P "take k s" "drop k s"] by simp
    ultimately show ?thesis using True by simp
  next
    case False
    have "filter P s = filter P (take k s) @ filter P (drop k s)"
      using filter_append [of P "take k s" "drop k s"] by simp
    with False show ?thesis by simp
  qed
  ultimately show ?thesis by (simp only: ip)
qed

lemma set_insert_pivot: "set (insert_pivot cmp s p) = insert p (set s)"
proof -
  have "set (insert_pivot cmp s p) = set_mset (mset (insert_pivot cmp s p))" by simp
  also have "\<dots> = insert p (set s)" by (simp only: insert_pivot_mset) simp
  finally show ?thesis .
qed

lemma BinaryInsertionSort_sorted:
  assumes con: "consistent_comparator cmp S"
    and P: "\<And>x y. P x \<Longrightarrow> P y \<Longrightarrow> cmp x y = 0"
  shows "set s \<subseteq> S \<Longrightarrow> set rest \<subseteq> S \<Longrightarrow> sorted_wrt (\<lambda>a b. cmp a b \<le> 0) s \<Longrightarrow>
         sorted_wrt (\<lambda>a b. cmp a b \<le> 0) (BinaryInsertionSort cmp s rest) \<and>
         filter P (BinaryInsertionSort cmp s rest) = filter P (s @ rest)"
proof (induction rest arbitrary: s)
  case Nil
  then show ?case by (simp add: BinaryInsertionSort_def)
next
  case (Cons p rest)
  from Cons.prems have pS: "p \<in> S" and rS: "set rest \<subseteq> S" by auto
  have ins: "sorted_wrt (\<lambda>a b. cmp a b \<le> 0) (insert_pivot cmp s p)"
    "filter P (insert_pivot cmp s p) = filter P (s @ [p])"
    using insert_pivot_sorted [OF con pS Cons.prems(1) Cons.prems(3) P] by blast+
  have sub: "set (insert_pivot cmp s p) \<subseteq> S"
    using pS Cons.prems(1) by (simp add: set_insert_pivot)
  have step: "BinaryInsertionSort cmp s (p # rest)
              = BinaryInsertionSort cmp (insert_pivot cmp s p) rest"
    by (simp add: BinaryInsertionSort_def)
  from Cons.IH [OF sub rS ins(1)] ins(2) show ?case
    by (simp add: step)
qed

lemma Array_sort_consistent:
  assumes con: "consistent_comparator cmp S" and S: "set xs \<subseteq> S"
    and P: "\<And>x y. P x \<Longrightarrow> P y \<Longrightarrow> cmp x y = 0"
  shows "sorted_wrt (\<lambda>a b. cmp a b \<le> 0) (Array_sort cmp xs) \<and>
         filter P (Array_sort cmp xs) = filter P xs"
proof (cases "length xs < 2")
  case True
  then have "xs = [] \<or> (\<exists>x. xs = [x])"
    by (cases xs) (auto simp add: length_Suc_conv)
  then have "sorted_wrt (\<lambda>a b. cmp a b \<le> 0) xs" by auto
  with True show ?thesis by (simp add: Array_sort_def)
next
  case False
  obtain n ys where c: "CountAndMakeRun cmp xs = (n, ys)" by (cases "CountAndMakeRun cmp xs")
  from CountAndMakeRun_sorted [OF con S P c]
  have run: "sorted_wrt (\<lambda>a b. cmp a b \<le> 0) (take n ys)"
    "filter P (take n ys) = filter P (take n xs)" "drop n ys = drop n xs"
    by blast+
  have "mset ys = mset xs" using CountAndMakeRun_mset [of cmp xs] c by simp
  then have "set ys = set xs" by (rule mset_eq_setD)
  with S have yS: "set (take n ys) \<subseteq> S" "set (drop n ys) \<subseteq> S"
    using set_take_subset [of n ys] set_drop_subset [of n ys] by blast+
  from False c have "Array_sort cmp xs = BinaryInsertionSort cmp (take n ys) (drop n ys)"
    by (simp add: Array_sort_def)
  moreover have "filter P (take n ys @ drop n ys) = filter P xs"
  proof -
    have "filter P (take n ys @ drop n ys) = filter P (take n xs) @ filter P (drop n xs)"
      by (simp only: filter_append run)
    also have "\<dots> = filter P (take n xs @ drop n xs)" by (simp only: filter_append)
    finally show ?thesis by simp
  qed
  ultimately show ?thesis
    using BinaryInsertionSort_sorted [OF con P yS run(1)] by simp
qed

lemma mset_sortedCampaigns: "mset (sortedCampaigns rt st) = mset (campaigns st)"
  by (simp add: sortedCampaigns_def mset_Array_sort)

lemma compare_le_0_iff:
  "compareCampaigns rt sf sd a b \<le> 0 \<longleftrightarrow>
     (if sd = Asc then \<not> js_less rt (sortValue rt sf b) (sortValue rt sf a)
                      \<or> js_less rt (sortValue rt sf a) (sortValue rt sf b)
      else \<not> js_less rt (sortValue rt sf a) (sortValue rt sf b))"
  by (auto simp add: compareCampaigns_def Let_def)

lemma js_less_cases:
  assumes "is_finite_number u \<and> is_finite_number v \<or> is_string u \<and> is_string v"
  obtains x y where "u = Number (Fin x)" "v = Number (Fin y)" "js_less rt u v = (x < y)"
  | s t where "u = String s" "v = String t" "js_less rt u v = (s < t)"
  using assms
  by (cases u rule: is_finite_number.cases; cases v rule: is_finite_number.cases) auto

text \<open>For keys of one kind, the comparator is the linear order of the keys.\<close>

lemma consistent_keys_consistent:
  assumes "consistent_keys rt sf cs"
  shows "consistent_comparator (compareCampaigns rt sf sd) (set cs)"
proof -
  from assms consider
    (num) "\<forall>c\<in>set cs. is_finite_number (sortValue rt sf c)"
    | (str) "\<forall>c\<in>set cs. is_string (sortValue rt sf c)"
    by (auto simp add: consistent_keys_def list_all_iff)
  then show ?thesis
  proof cases
    case num
    define key where "key c = (case sortValue rt sf c of Number (Fin x) \<Rightarrow> x | _ \<Rightarrow> 0)" for c
    have k: "sortValue rt sf c = Number (Fin (key c))" if "c \<in> set cs" for c
      using num that
      by (cases "sortValue rt sf c" rule: is_finite_number.cases) (auto simp add: key_def)
    have cmp: "compareCampaigns rt sf sd a b
               = (if key a < key b then (if sd = Asc then - 1 else 1)
                  else if key b < key a then (if sd = Asc then 1 else - 1) else 0)"
      if "a \<in> set cs" "b \<in> set cs" for a b
      by (simp add: compareCampaigns_def k [OF that(1)] k [OF that(2)])
    show ?thesis
      unfolding consistent_comparator_def by (auto simp add: cmp split: if_splits)
  next
    case str
    define key where "key c = (case sortValue rt sf c of String x \<Rightarrow> x | _ \<Rightarrow> [])" for c
    have k: "sortValue rt sf c = String (key c)" if "c \<in> set cs" for c
      using str that
      by (cases "sortValue rt sf c" rule: is_string.cases) (auto simp add: key_def)
    have cmp: "compareCampaigns rt sf sd a b
               = (if key a < key b then (if sd = Asc then - 1 else 1)
                  else if key b < key a then (if sd = Asc then 1 else - 1) else 0)"
      if "a \<in> set cs" "b \<in> set cs" for a b
      by (simp add: compareCampaigns_def k [OF that(1)] k [OF that(2)])
    show ?thesis
      unfolding consistent_comparator_def by (auto simp add: cmp split: if_splits)
  qed
qed

lemma same_key_consistent:
  assumes "\<forall>c\<in>set cs. sortValue rt sf c = k"
  shows "consistent_comparator (compareCampaigns rt sf sd) (set cs)"
proof -
  have "compareCampaigns rt sf sd a b = 0" if "a \<in> set cs" "b \<in> set cs" for a b
    using assms that by (simp add: compare_same_key)
  then show ?thesis unfolding consistent_comparator_def by simp
qed

lemma sortedCampaigns_consistent:
  assumes "consistent_comparator (compareCampaigns rt (sortField st) (sortDirection st))
             (set (campaigns st))"
  shows "sorted_wrt (\<lambda>a b. compareCampaigns rt (sortField st) (sortDirection st) a b \<le> 0)
           (sortedCampaigns rt st) \<and>
         filter (\<lambda>c. sortValue rt (sortField st) c = k) (sortedCampaigns rt st)
           = filter (\<lambda>c. sortValue rt (sortField st) c = k) (campaigns st)"
  unfolding sortedCampaigns_def
  by (rule Array_sort_consistent [OF assms subset_refl]) (simp add: compare_same_key)

lemma length_filter_distinct_le_1:
  "distinct (map f xs) \<Longrightarrow> length (filter (\<lambda>x. f x = k) xs) \<le> 1"
proof (induction xs)
  case Nil
  then show ?case by simp
next
  case (Cons x xs)
  show ?case
  proof (cases "f x = k")
    case True
    with Cons.prems have "\<forall>y\<in>set xs. f y \<noteq> k" by (auto simp: image_iff)
    then have "filter (\<lambda>x. f x = k) xs = []" by (simp add: filter_empty_conv)
    with True show ?thesis by simp
  next
    case False
    with Cons show ?thesis by simp
  qed
qed

lemma campaigns_add_all: "campaigns (add_all cs st) = campaigns st @ cs"
  unfolding add_all_def by (induction cs arbitrary: st) (simp_all add: handleAddCampaign_def)


lemma cost_values:
  "sortValue rt Cost campaign_a = Number (Fin 50)"
  "sortValue rt Cost campaign_a2 = Number (Fin 50)"
  "sortValue rt Cost campaign_b = Number (Fin 10)"
  by (simp_all add: sortValue_def campaign_a_def campaign_a2_def campaign_b_def)

lemma Date_parse_iso_examples:
  "make_date ''2024'' ''01'' ''01'' = Fin 1704067200000"
  "make_date ''2024'' ''02'' ''01'' = Fin 1706745600000"
  by (simp_all add: make_date_def is_digit_def digits_value_def digit_value_def
      days_in_month_def days_from_civil_def)

lemma dated_values:
  "sortValue ecmascript StartDate r0 = Number (Fin 1706745600000)"
  "sortValue ecmascript StartDate r1 = Number (Fin 1704067200000)"
  "sortValue ecmascript StartDate r2 = Number (Fin 1704067200000)"
  "sortValue ecmascript StartDate r3 = Number (Fin 1704067200000)"
  "sortValue ecmascript StartDate r4 = Number NaN"
  "sortValue ecmascript StartDate r5 = Number (Fin 1704067200000)"
  "sortValue ecmascript StartDate r6 = Number (Fin 1704067200000)"
  by (simp_all add: sortValue_def r0_def r1_def r2_def r3_def r4_def r5_def r6_def
      campaign_dated_def ecmascript_def Date_parse_iso_examples)

lemma sortValue_Profit:
  "sortValue rt Profit c = Number (js_minus rt (get_field Revenue c) (get_field Cost c))"
  by (simp add: sortValue_def)

lemma compare_Profit_update:
  "compareCampaigns rt Profit sd (x\<lparr>profit := p\<rparr>) (y\<lparr>profit := q\<rparr>)
     = compareCampaigns rt Profit sd x y"
  by (simp add: compareCampaigns_def sortValue_Profit)

lemma sortedCampaigns_Profit_update:
  assumes "sortField st = Profit"
  shows "sortedCampaigns rt (st\<lparr>campaigns := map (\<lambda>c. c\<lparr>profit := f c\<rparr>) (campaigns st)\<rparr>)
        = map (\<lambda>c. c\<lparr>profit := f c\<rparr>) (sortedCampaigns rt st)"
proof -
  have "Array_sort (compareCampaigns rt Profit (sortDirection st))
          (map (\<lambda>c. c\<lparr>profit := f c\<rparr>) (campaigns st))
        = map (\<lambda>c. c\<lparr>profit := f c\<rparr>)
            (Array_sort (compareCampaigns rt Profit (sortDirection st)) (campaigns st))"
    by (rule Array_sort_map) (rule compare_Profit_update)
  with assms show ?thesis by (simp add: sortedCampaigns_def)
qed

lemma profit_values:
  "sortValue rt Profit campaign_a = Number (Fin 30)"
  "sortValue rt Profit campaign_b = Number (Fin 90)"
  "sortValue rt Profit campaign_a2 = Number (Fin 30)"
  "sortValue rt Profit campaign_500_300 = Number (Fin 200)"
  by (simp_all add: sortValue_Profit js_minus_def campaign_a_def campaign_b_def campaign_a2_def
      campaign_500_300_def)

lemma sortedCampaigns_heap_example:
  "sortedCampaigns_heap ecmascript Cost Asc [[campaign_a, campaign_b]] 0
     = (1, [[campaign_a, campaign_b], [campaign_b, campaign_a]])"
  by (simp add: sortedCampaigns_heap_def spread_def Array_prototype_sort_def Array_sort_eval
      compareCampaigns_def cost_values)

lemma JSON_parse_examples:
  "JSON_parse ''oops'' = Inl SyntaxError"
  "JSON_parse (quoted ''oops'') = Inr (JString ''oops'')"
  "JSON_parse stored_example
     = Inr (JArray [JObject [(''id'', JString ''a''), (''cost'', JNumber (Fin 50))]])"
  by code_simp+

lemma campaigns_of_json_examples:
  "campaigns_of_json (JString ''oops'') = None"
  "campaigns_of_json (JArray [JObject [(''id'', JString ''a''), (''cost'', JNumber (Fin 50))]])
     = Some [\<lparr>id' = Some ''a'', name = None, startDate = None, endDate = None,
               clicks = None, cost = Some (Fin 50), revenue = None, profit = None\<rparr>]"
  by (simp_all add: member_value_def field_names_def)

lemma run_snoc: "run stringify (evs @ [ev]) w = dispatch stringify ev (run stringify evs w)"
  by (simp add: run_def)

lemma dispatch_sets_campaigns:
  "sets_campaigns ev \<Longrightarrow>
   snd (dispatch stringify ev w)
     = (snd w)(''campaigns'' \<mapsto> stringify (campaigns (fst (dispatch stringify ev w))))"
  by (simp add: dispatch_def Let_def save_effect_def setItem_def)

lemma dispatch_keeps_persisted:
  assumes "getItem (snd w) ''campaigns'' = Some (stringify (campaigns (fst w)))"
    and "\<not> sets_campaigns ev"
  shows "getItem (snd (dispatch stringify ev w)) ''campaigns''
           = Some (stringify (campaigns (fst (dispatch stringify ev w))))"
  using assms by (cases ev) (simp_all add: dispatch_def handleSort_def)

section \<open>Properties of the event handlers\<close>

text \<open>
  C5. \<^verbatim>\<open>handleSort\<close> called with the current sort field keeps the field and flips
  the direction (ascending to descending and back); called with another field it
  makes that field the sort field and the direction ascending. It never touches the
  campaigns. Sorting by cost twice in a row leaves the field at cost and the direction
  opposite to the one after the first call.
\<close>

theorem handleSort_toggles_or_resets:
  "(fld = sortField st \<longrightarrow>
      sortField (handleSort fld st) = sortField st \<and>
      sortDirection (handleSort fld st) \<noteq> sortDirection st \<and>
      sortDirection (handleSort fld st) = (case sortDirection st of Asc \<Rightarrow> Desc | Desc \<Rightarrow> Asc)) \<and>
   (fld \<noteq> sortField st \<longrightarrow>
      sortField (handleSort fld st) = fld \<and> sortDirection (handleSort fld st) = Asc) \<and>
   campaigns (handleSort fld st) = campaigns st \<and>
   sortField (handleSort Cost (handleSort Cost st)) = Cost \<and>
   sortDirection (handleSort Cost (handleSort Cost st)) \<noteq> sortDirection (handleSort Cost st)"
  by (cases "sortDirection st") (simp_all add: handleSort_def)

text \<open>From the initial state (sorted by name, ascending).\<close>

theorem handleSort_toggles_or_resets_witness:
  "sortField (handleSort Name initial_state) = Name \<and>
   sortDirection (handleSort Name initial_state) = Desc \<and>
   sortField (handleSort Cost initial_state) = Cost \<and>
   sortDirection (handleSort Cost initial_state) = Asc \<and>
   sortDirection (handleSort Cost (handleSort Cost initial_state)) = Desc"
  using handleSort_toggles_or_resets [of Name initial_state]
    handleSort_toggles_or_resets [of Cost initial_state]
  by (simp add: initial_state_def handleSort_def)


text \<open>
  C7, as stated, fails: deleting by an id that two records share removes both, so a
  list of three shrinks to one.
\<close>

theorem handleDeleteCampaign_two_counterexample:
  "length (campaigns (state_of [campaign_a, campaign_b, campaign_a2] Name Asc)) = 3 \<and>
   length (campaigns (handleDeleteCampaign ''a''
     (state_of [campaign_a, campaign_b, campaign_a2] Name Asc))) = 1"
  by (simp add: handleDeleteCampaign_def state_of_def campaign_a_def campaign_b_def campaign_a2_def)

text \<open>
  C7, amended. \<^verbatim>\<open>handleDeleteCampaign\<close> shrinks the list by the number of records
  whose id is the given one, and never grows it; when the ids in the list are pairwise
  distinct it shrinks the list by at most one element.
\<close>

theorem handleDeleteCampaign_length:
  "length (campaigns (handleDeleteCampaign i st))
     + length (filter (\<lambda>c. id' c = Some i) (campaigns st)) = length (campaigns st) \<and>
   (distinct (map id' (campaigns st)) \<longrightarrow>
      length (campaigns st) \<le> length (campaigns (handleDeleteCampaign i st)) + 1) \<and>
   length (campaigns (handleDeleteCampaign i st)) \<le> length (campaigns st)"
proof -
  have "length (filter (\<lambda>c. id' c \<noteq> Some i) (campaigns st))
        + length (filter (\<lambda>c. id' c = Some i) (campaigns st)) = length (campaigns st)"
    using sum_length_filter_compl [of "\<lambda>c. id' c = Some i" "campaigns st"] by simp
  then have sum: "length (campaigns (handleDeleteCampaign i st))
     + length (filter (\<lambda>c. id' c = Some i) (campaigns st)) = length (campaigns st)"
    by (simp add: handleDeleteCampaign_def)
  moreover have "length (campaigns st) \<le> length (campaigns (handleDeleteCampaign i st)) + 1"
    if "distinct (map id' (campaigns st))"
    using length_filter_distinct_le_1 [OF that, of "Some i"] sum by linarith
  ultimately show ?thesis by simp
qed

theorem handleDeleteCampaign_length_witness:
  "distinct (map id' (campaigns (state_of [campaign_a, campaign_b] Name Asc))) \<and>
   length (campaigns (handleDeleteCampaign ''a'' (state_of [campaign_a, campaign_b] Name Asc))) = 1 \<and>
   length (campaigns (handleDeleteCampaign ''zz'' (state_of [campaign_a, campaign_b] Name Asc))) = 2"
  using handleDeleteCampaign_length [of "''a''" "state_of [campaign_a, campaign_b] Name Asc"]
    handleDeleteCampaign_length [of "''zz''" "state_of [campaign_a, campaign_b] Name Asc"]
  by (simp add: handleDeleteCampaign_def state_of_def campaign_a_def campaign_b_def)


text \<open>
  C8. \<^verbatim>\<open>handleAddCampaign\<close> appends the campaign at the end and makes the list one
  longer. Adding campaigns with pairwise distinct ids one after the other, from the
  initial (empty) state, gives a list with exactly those ids, in the order of the calls
  and without duplicates.
\<close>

theorem add_distinct_ids:
  "campaigns (handleAddCampaign c st) = campaigns st @ [c] \<and>
   length (campaigns (handleAddCampaign c st)) = length (campaigns st) + 1 \<and>
   (distinct (map id' cs) \<longrightarrow>
      map id' (campaigns (add_all cs initial_state)) = map id' cs \<and>
      distinct (map id' (campaigns (add_all cs initial_state))) \<and>
      campaigns (add_all cs initial_state) = cs)"
  by (simp add: campaigns_add_all) (simp add: handleAddCampaign_def initial_state_def)

theorem add_distinct_ids_witness:
  "distinct (map id' [campaign_a, campaign_b]) \<and>
   campaigns (add_all [campaign_a, campaign_b] initial_state) = [campaign_a, campaign_b] \<and>
   map id' (campaigns (add_all [campaign_a, campaign_b] initial_state)) = [Some ''a'', Some ''b'']"
  using add_distinct_ids [of campaign_a initial_state "[campaign_a, campaign_b]"]
  by (simp add: campaign_a_def campaign_b_def)


text \<open>
  C10. \<^verbatim>\<open>handleDeleteCampaign\<close> removes every record whose id is the given one, also
  when several records share it; the records with another id (or none) all stay, in
  their order, and the sort settings are untouched.
\<close>

theorem handleDeleteCampaign_removes_every_match:
  "(\<forall>c \<in> set (campaigns (handleDeleteCampaign i st)). id' c \<noteq> Some i) \<and>
   filter (\<lambda>c. id' c \<noteq> Some i) (campaigns (handleDeleteCampaign i st))
     = filter (\<lambda>c. id' c \<noteq> Some i) (campaigns st) \<and>
   campaigns (handleDeleteCampaign i st) = filter (\<lambda>c. id' c \<noteq> Some i) (campaigns st) \<and>
   subseq (campaigns (handleDeleteCampaign i st)) (campaigns st) \<and>
   sortField (handleDeleteCampaign i st) = sortField st \<and>
   sortDirection (handleDeleteCampaign i st) = sortDirection st"
  by (simp add: handleDeleteCampaign_def)

text \<open>Two of four records share the id \<^verbatim>\<open>a\<close>; one call removes both.\<close>

theorem handleDeleteCampaign_removes_every_match_witness:
  "campaigns (handleDeleteCampaign ''a''
      (state_of [campaign_a, campaign_b, campaign_a2, campaign_undated] Name Asc))
     = [campaign_b, campaign_undated] \<and>
   campaign_b \<in> set (campaigns (handleDeleteCampaign ''a''
      (state_of [campaign_a, campaign_b, campaign_a2, campaign_undated] Name Asc))) \<and>
   id' campaign_b \<noteq> Some ''a''"
  using handleDeleteCampaign_removes_every_match
    [of "''a''" "state_of [campaign_a, campaign_b, campaign_a2, campaign_undated] Name Asc"]
  by (simp add: handleDeleteCampaign_def state_of_def campaign_a_def campaign_b_def
      campaign_a2_def campaign_undated_def)

section \<open>Properties of the sorted view\<close>

text \<open>
  C3, as stated, fails: a record without a start date has the comparison value \<open>NaN\<close>
  and compares equal to every record, so the comparator is not consistent on a list
  that also holds different dates, and the order is the engine's. Of seven records
  sorted by start date, ascending, the last two, \<open>r5\<close> and \<open>r6\<close>, have the same start
  date, and \<open>r6\<close> comes before \<open>r5\<close> in the view: the records with that start date are
  not in the order they have in the list.
\<close>

theorem sortedCampaigns_unstable_counterexample:
  "sortValue ecmascript StartDate r5 = sortValue ecmascript StartDate r6 \<and>
   campaigns (state_of [r0, r1, r2, r3, r4, r5, r6] StartDate Asc)
     = [r0, r1, r2, r3, r4, r5, r6] \<and>
   sortedCampaigns ecmascript (state_of [r0, r1, r2, r3, r4, r5, r6] StartDate Asc)
     = [r1, r2, r3, r6, r0, r4, r5] \<and>
   filter (\<lambda>c. sortValue ecmascript StartDate c = sortValue ecmascript StartDate r5)
       (sortedCampaigns ecmascript (state_of [r0, r1, r2, r3, r4, r5, r6] StartDate Asc))
     \<noteq> filter (\<lambda>c. sortValue ecmascript StartDate c = sortValue ecmascript StartDate r5)
         [r0, r1, r2, r3, r4, r5, r6]"
proof -
  have view: "sortedCampaigns ecmascript (state_of [r0, r1, r2, r3, r4, r5, r6] StartDate Asc)
     = [r1, r2, r3, r6, r0, r4, r5]"
    by (simp add: sortedCampaigns_def state_of_simps Array_sort_eval compareCampaigns_def
        dated_values)
  have "r5 \<noteq> r6"
    by (simp add: r5_def r6_def campaign_dated_def)
  then show ?thesis
    unfolding view by (simp add: state_of_simps dated_values)
qed

text \<open>
  C3, amended. On every list of campaigns on which the comparator of the active sort
  field and direction is consistent, the sorted view is sorted and stable: the records
  whose comparison value is a given value \<open>k\<close> appear in the view in the order they have
  in the list, for both directions. The comparator is consistent whenever the
  comparison values of the list are all finite numbers or all strings. A list whose
  records all have the same comparison value is its own view. Records with equal
  comparison values compare as equal; no other field breaks the tie.
\<close>

theorem sortedCampaigns_stable_if_consistent:
  "(consistent_comparator (compareCampaigns rt (sortField st) (sortDirection st))
       (set (campaigns st)) \<longrightarrow>
      sorted_wrt (\<lambda>a b. compareCampaigns rt (sortField st) (sortDirection st) a b \<le> 0)
        (sortedCampaigns rt st) \<and>
      filter (\<lambda>c. sortValue rt (sortField st) c = k) (sortedCampaigns rt st)
        = filter (\<lambda>c. sortValue rt (sortField st) c = k) (campaigns st)) \<and>
   (consistent_keys rt (sortField st) (campaigns st) \<longrightarrow>
      consistent_comparator (compareCampaigns rt (sortField st) (sortDirection st))
        (set (campaigns st))) \<and>
   ((\<forall>c \<in> set (campaigns st). sortValue rt (sortField st) c = k) \<longrightarrow>
      sortedCampaigns rt st = campaigns st) \<and>
   (sortValue rt sf a = sortValue rt sf b \<longrightarrow> compareCampaigns rt sf sd a b = 0)"
proof (intro conjI impI)
  assume "consistent_comparator (compareCampaigns rt (sortField st) (sortDirection st))
            (set (campaigns st))"
  then show "sorted_wrt (\<lambda>a b. compareCampaigns rt (sortField st) (sortDirection st) a b \<le> 0)
        (sortedCampaigns rt st)"
    and "filter (\<lambda>c. sortValue rt (sortField st) c = k) (sortedCampaigns rt st)
        = filter (\<lambda>c. sortValue rt (sortField st) c = k) (campaigns st)"
    using sortedCampaigns_consistent [of rt st k] by blast+
next
  assume "consistent_keys rt (sortField st) (campaigns st)"
  then show "consistent_comparator (compareCampaigns rt (sortField st) (sortDirection st))
        (set (campaigns st))"
    by (rule consistent_keys_consistent)
next
  assume "sortValue rt sf a = sortValue rt sf b"
  then show "compareCampaigns rt sf sd a b = 0"
    by (rule compare_same_key)
next
  assume all: "\<forall>c \<in> set (campaigns st). sortValue rt (sortField st) c = k"
  then have con: "consistent_comparator (compareCampaigns rt (sortField st) (sortDirection st))
        (set (campaigns st))"
    by (rule same_key_consistent)
  have "set (sortedCampaigns rt st) = set (campaigns st)"
    using mset_sortedCampaigns [of rt st] by (rule mset_eq_setD)
  with all have all': "\<forall>c \<in> set (sortedCampaigns rt st). sortValue rt (sortField st) c = k"
    by simp
  have "sortedCampaigns rt st
        = filter (\<lambda>c. sortValue rt (sortField st) c = k) (sortedCampaigns rt st)"
    by (rule filter_True [OF all', symmetric])
  also have "\<dots> = filter (\<lambda>c. sortValue rt (sortField st) c = k) (campaigns st)"
    using sortedCampaigns_consistent [OF con, of k] by blast
  also have "\<dots> = campaigns st"
    by (rule filter_True [OF all])
  finally show "sortedCampaigns rt st = campaigns st" .
qed

text \<open>
  Sorted by cost, the keys of three records are finite numbers: the two records with
  cost 50 keep their order in both directions while the record with cost 10 moves.
  Three records with the same revenue keep their order, ascending and descending.
\<close>

theorem sortedCampaigns_stable_if_consistent_witness:
  "consistent_keys ecmascript Cost [campaign_a, campaign_b, campaign_a2] \<and>
   sortedCampaigns ecmascript (state_of [campaign_a, campaign_b, campaign_a2] Cost Asc)
     = [campaign_b, campaign_a, campaign_a2] \<and>
   filter (\<lambda>c. sortValue ecmascript Cost c = Number (Fin 50))
      (sortedCampaigns ecmascript (state_of [campaign_a, campaign_b, campaign_a2] Cost Asc))
     = filter (\<lambda>c. sortValue ecmascript Cost c = Number (Fin 50))
         [campaign_a, campaign_b, campaign_a2] \<and>
   sortedCampaigns ecmascript (state_of [campaign_a, campaign_b, campaign_a2] Cost Desc)
     = [campaign_a, campaign_a2, campaign_b] \<and>
   filter (\<lambda>c. sortValue ecmascript Cost c = Number (Fin 50))
      (sortedCampaigns ecmascript (state_of [campaign_a, campaign_b, campaign_a2] Cost Desc))
     = filter (\<lambda>c. sortValue ecmascript Cost c = Number (Fin 50))
         [campaign_a, campaign_b, campaign_a2] \<and>
   sortedCampaigns ecmascript (state_of [campaign_a, campaign_a2, campaign_a] Revenue Asc)
     = [campaign_a, campaign_a2, campaign_a] \<and>
   sortedCampaigns ecmascript (state_of [campaign_a, campaign_a2, campaign_a] Revenue Desc)
     = [campaign_a, campaign_a2, campaign_a] \<and>
   compareCampaigns ecmascript Cost Asc campaign_a campaign_a2 = 0 \<and>
   compareCampaigns ecmascript Cost Desc campaign_a campaign_a2 = 0"
proof -
  let ?cs = "[campaign_a, campaign_b, campaign_a2]"
  have keys: "consistent_keys ecmascript Cost ?cs"
    by (simp add: consistent_keys_def cost_values)
  have stable: "filter (\<lambda>c. sortValue ecmascript Cost c = Number (Fin 50))
      (sortedCampaigns ecmascript (state_of ?cs Cost sd))
     = filter (\<lambda>c. sortValue ecmascript Cost c = Number (Fin 50)) ?cs" for sd
  proof -
    note inst = sortedCampaigns_stable_if_consistent
      [where rt = ecmascript and st = "state_of ?cs Cost sd" and k = "Number (Fin 50)"]
    from keys have "consistent_keys ecmascript (sortField (state_of ?cs Cost sd))
        (campaigns (state_of ?cs Cost sd))"
      by (simp only: state_of_simps)
    with inst have "consistent_comparator
        (compareCampaigns ecmascript (sortField (state_of ?cs Cost sd))
           (sortDirection (state_of ?cs Cost sd)))
        (set (campaigns (state_of ?cs Cost sd)))"
      by blast
    with inst have "filter (\<lambda>c. sortValue ecmascript (sortField (state_of ?cs Cost sd)) c
          = Number (Fin 50)) (sortedCampaigns ecmascript (state_of ?cs Cost sd))
        = filter (\<lambda>c. sortValue ecmascript (sortField (state_of ?cs Cost sd)) c
          = Number (Fin 50)) (campaigns (state_of ?cs Cost sd))"
      by blast
    then show ?thesis by (simp only: state_of_simps)
  qed
  have a: "sortValue ecmascript Revenue campaign_a = Number (Fin 80)"
    by (simp add: sortValue_def campaign_a_def)
  have a2: "sortValue ecmascript Revenue campaign_a2 = Number (Fin 80)"
    by (simp add: sortValue_def campaign_a2_def)
  have eq: "\<forall>c \<in> set (campaigns (state_of [campaign_a, campaign_a2, campaign_a] Revenue sd)).
              sortValue ecmascript (sortField (state_of [campaign_a, campaign_a2, campaign_a] Revenue sd)) c
                = Number (Fin 80)" for sd
    unfolding state_of_simps using a a2 by simp
  have same: "sortedCampaigns ecmascript (state_of [campaign_a, campaign_a2, campaign_a] Revenue sd)
     = campaigns (state_of [campaign_a, campaign_a2, campaign_a] Revenue sd)" for sd
    using sortedCampaigns_stable_if_consistent
      [where rt = ecmascript and st = "state_of [campaign_a, campaign_a2, campaign_a] Revenue sd"
        and k = "Number (Fin 80)", THEN conjunct2, THEN conjunct2, THEN conjunct1, THEN mp,
        OF eq [of sd]] .
  have tie: "compareCampaigns ecmascript Cost sd campaign_a campaign_a2 = 0" for sd
    using sortedCampaigns_stable_if_consistent
      [where rt = ecmascript and sf = Cost and sd = sd and a = campaign_a and b = campaign_a2,
        THEN conjunct2, THEN conjunct2, THEN conjunct2, THEN mp]
    by (simp add: cost_values)
  have asc: "sortedCampaigns ecmascript (state_of ?cs Cost Asc)
     = [campaign_b, campaign_a, campaign_a2]"
    by (simp add: sortedCampaigns_def state_of_simps Array_sort_eval compareCampaigns_def
        cost_values)
  have desc: "sortedCampaigns ecmascript (state_of ?cs Cost Desc)
     = [campaign_a, campaign_a2, campaign_b]"
    by (simp add: sortedCampaigns_def state_of_simps Array_sort_eval compareCampaigns_def
        cost_values)
  from keys asc stable [of Asc] desc stable [of Desc] same [of Asc] same [of Desc]
    tie [of Asc] tie [of Desc]
  show ?thesis
    unfolding state_of_simps by (intro conjI)
qed

text \<open>
  C4. Sorting by profit compares \<^verbatim>\<open>revenue - cost\<close>: this is the comparison value of
  every record, whatever its stored \<^verbatim>\<open>profit\<close> field holds; revenue 500 and cost 300
  give 200. The comparator and the sorted view do not depend on stored profits.
\<close>

theorem profit_is_revenue_minus_cost:
  "sortValue rt Profit c = Number (js_minus rt (get_field Revenue c) (get_field Cost c)) \<and>
   sortValue rt Profit (c\<lparr>profit := p\<rparr>) = sortValue rt Profit c \<and>
   (revenue c = Some (Fin 500) \<and> cost c = Some (Fin 300) \<longrightarrow>
      sortValue rt Profit c = Number (Fin 200)) \<and>
   compareCampaigns rt Profit sd (a\<lparr>profit := p\<rparr>) (b\<lparr>profit := q\<rparr>)
     = compareCampaigns rt Profit sd a b \<and>
   (sortField st = Profit \<longrightarrow>
      sortedCampaigns rt (st\<lparr>campaigns := map (\<lambda>c. c\<lparr>profit := f c\<rparr>) (campaigns st)\<rparr>)
        = map (\<lambda>c. c\<lparr>profit := f c\<rparr>) (sortedCampaigns rt st))"
proof (intro conjI impI)
  show "sortValue rt Profit c = Number (js_minus rt (get_field Revenue c) (get_field Cost c))"
    by (rule sortValue_Profit)
  show "sortValue rt Profit (c\<lparr>profit := p\<rparr>) = sortValue rt Profit c"
    by (simp add: sortValue_Profit)
  show "sortValue rt Profit c = Number (Fin 200)"
    if "revenue c = Some (Fin 500) \<and> cost c = Some (Fin 300)"
    using that by (simp add: sortValue_Profit js_minus_def)
  show "compareCampaigns rt Profit sd (a\<lparr>profit := p\<rparr>) (b\<lparr>profit := q\<rparr>)
     = compareCampaigns rt Profit sd a b"
    by (rule compare_Profit_update)
  show "sortedCampaigns rt (st\<lparr>campaigns := map (\<lambda>c. c\<lparr>profit := f c\<rparr>) (campaigns st)\<rparr>)
        = map (\<lambda>c. c\<lparr>profit := f c\<rparr>) (sortedCampaigns rt st)"
    if "sortField st = Profit"
    using that by (rule sortedCampaigns_Profit_update)
qed

text \<open>
  A record with revenue 500, cost 300 and a stored profit of 1 is compared as 200;
  the view sorted by profit is the same whatever profits are stored.
\<close>

theorem profit_is_revenue_minus_cost_witness:
  "revenue campaign_500_300 = Some (Fin 500) \<and> cost campaign_500_300 = Some (Fin 300) \<and>
   profit campaign_500_300 = Some (Fin 1) \<and>
   sortValue ecmascript Profit campaign_500_300 = Number (Fin 200) \<and>
   sortedCampaigns ecmascript (state_of [campaign_a, campaign_500_300, campaign_b] Profit Desc)
     = [campaign_500_300, campaign_b, campaign_a] \<and>
   sortedCampaigns ecmascript
      (state_of [campaign_a\<lparr>profit := Some (Fin 1000)\<rparr>,
                 campaign_500_300\<lparr>profit := Some (Fin 0)\<rparr>,
                 campaign_b\<lparr>profit := Some (Fin 1000)\<rparr>] Profit Desc)
     = [campaign_500_300\<lparr>profit := Some (Fin 0)\<rparr>,
        campaign_b\<lparr>profit := Some (Fin 1000)\<rparr>,
        campaign_a\<lparr>profit := Some (Fin 1000)\<rparr>]"
proof -
  let ?f = "\<lambda>c. if c = campaign_500_300 then Some (Fin 0) else Some (Fin 1000)"
  let ?st = "state_of [campaign_a, campaign_500_300, campaign_b] Profit Desc"
  have rc: "revenue campaign_500_300 = Some (Fin 500) \<and> cost campaign_500_300 = Some (Fin 300)"
    by (simp add: campaign_500_300_def)
  have ne: "campaign_a \<noteq> campaign_500_300" "campaign_b \<noteq> campaign_500_300"
    by (simp_all add: campaign_a_def campaign_b_def campaign_500_300_def)
  note inst = profit_is_revenue_minus_cost
      [where rt = ecmascript and c = campaign_500_300 and p = None and sd = Asc
         and a = campaign_a and b = campaign_b and q = None and st = ?st and f = ?f]
  have v: "sortValue ecmascript Profit campaign_500_300 = Number (Fin 200)"
    using inst rc by blast
  have plain: "sortedCampaigns ecmascript ?st = [campaign_500_300, campaign_b, campaign_a]"
    by (simp add: sortedCampaigns_def state_of_simps Array_sort_eval compareCampaigns_def
        profit_values)
  have "sortField ?st = Profit" by (simp add: state_of_simps)
  with inst have "sortedCampaigns ecmascript
        (?st\<lparr>campaigns := map (\<lambda>c. c\<lparr>profit := ?f c\<rparr>) (campaigns ?st)\<rparr>)
      = map (\<lambda>c. c\<lparr>profit := ?f c\<rparr>) (sortedCampaigns ecmascript ?st)"
    by blast
  moreover have "?st\<lparr>campaigns := map (\<lambda>c. c\<lparr>profit := ?f c\<rparr>) (campaigns ?st)\<rparr>
      = state_of [campaign_a\<lparr>profit := Some (Fin 1000)\<rparr>,
                 campaign_500_300\<lparr>profit := Some (Fin 0)\<rparr>,
                 campaign_b\<lparr>profit := Some (Fin 1000)\<rparr>] Profit Desc"
    using ne by (simp add: state_of_def)
  ultimately have changed: "sortedCampaigns ecmascript
      (state_of [campaign_a\<lparr>profit := Some (Fin 1000)\<rparr>,
                 campaign_500_300\<lparr>profit := Some (Fin 0)\<rparr>,
                 campaign_b\<lparr>profit := Some (Fin 1000)\<rparr>] Profit Desc)
     = [campaign_500_300\<lparr>profit := Some (Fin 0)\<rparr>,
        campaign_b\<lparr>profit := Some (Fin 1000)\<rparr>,
        campaign_a\<lparr>profit := Some (Fin 1000)\<rparr>]"
    using ne by (simp add: plain)
  have "profit campaign_500_300 = Some (Fin 1)" by (simp add: campaign_500_300_def)
  with rc v plain changed show ?thesis by (intro conjI) simp_all
qed

text \<open>
  C6. Computing the sorted view allocates a new array and sorts that one: the array
  the state refers to, and every other array of the heap, is left as it was, in
  content and order. The new array holds the same records, sorted.
\<close>

theorem sortedCampaigns_heap_leaves_campaigns:
  assumes "r < length h"
    and "sortedCampaigns_heap rt sf sd h r = (r', h')"
  shows "r' \<noteq> r \<and> r' = length h \<and> length h' = length h + 1 \<and>
         h' ! r = h ! r \<and> take (length h) h' = h \<and>
         h' ! r' = Array_sort (compareCampaigns rt sf sd) (h ! r) \<and>
         h' ! r' = sortedCampaigns rt (state_of (h ! r) sf sd) \<and>
         mset (h' ! r') = mset (h ! r)"
proof -
  from assms(2) have r': "r' = length h"
    and h'': "h' = h @ [Array_sort (compareCampaigns rt sf sd) (h ! r)]"
    by (auto simp add: sortedCampaigns_heap_def spread_def Array_prototype_sort_def)
  from assms(1) have "h' ! r = h ! r"
    by (simp add: h'' nth_append)
  moreover have "h' ! r' = Array_sort (compareCampaigns rt sf sd) (h ! r)"
    by (simp add: h'' r')
  moreover have "take (length h) h' = h" "length h' = length h + 1"
    by (simp_all add: h'')
  ultimately show ?thesis
    using assms(1) r' by (simp add: sortedCampaigns_def state_of_simps mset_Array_sort)
qed

text \<open>A heap with one array, the campaigns of the state, sorted by cost.\<close>

theorem sortedCampaigns_heap_leaves_campaigns_witness:
  "sortedCampaigns_heap ecmascript Cost Asc [[campaign_a, campaign_b]] 0
     = (1, [[campaign_a, campaign_b], [campaign_b, campaign_a]]) \<and>
   [[campaign_a, campaign_b], [campaign_b, campaign_a]] ! 0 = [[campaign_a, campaign_b]] ! 0 \<and>
   (1::nat) \<noteq> 0"
  using sortedCampaigns_heap_leaves_campaigns
    [where h = "[[campaign_a, campaign_b]]" and r = 0 and rt = ecmascript and sf = Cost
       and sd = Asc and r' = 1 and h' = "[[campaign_a, campaign_b], [campaign_b, campaign_a]]"]
    sortedCampaigns_heap_example
  by simp

text \<open>
  C9, as stated, fails for the date fields: for a record without a start date the
  comparison value is \<open>NaN\<close>, the time of an invalid date, not 0. The record compares
  equal to a record dated 2024-01-01, which 0 would precede.
\<close>

theorem sortValue_absent_date_counterexample:
  "get_field StartDate campaign_undated = Undefined \<and>
   sortValue ecmascript StartDate campaign_undated = Number NaN \<and>
   sortValue ecmascript StartDate campaign_undated \<noteq> Number (Fin 0) \<and>
   sortValue ecmascript StartDate campaign_a = Number (Fin 1704067200000) \<and>
   js_less ecmascript (Number (Fin 0)) (sortValue ecmascript StartDate campaign_a) \<and>
   compareCampaigns ecmascript StartDate Asc campaign_undated campaign_a = 0"
proof -
  have u: "sortValue ecmascript StartDate campaign_undated = Number NaN"
    by (simp add: sortValue_def campaign_undated_def)
  have "Date_parse_iso ''2024-01-01'' = Fin 1704067200000"
    by (simp add: make_date_def is_digit_def digits_value_def digit_value_def days_in_month_def
        days_from_civil_def)
  then have a: "sortValue ecmascript StartDate campaign_a = Number (Fin 1704067200000)"
    by (simp add: sortValue_def campaign_a_def ecmascript_def)
  show ?thesis
    by (simp add: compareCampaigns_def u a) (simp add: campaign_undated_def)
qed

text \<open>
  C9, amended. For the fields id, name, clicks, cost and revenue a missing value is
  replaced by 0 in the comparison and a present value is compared as it is. For the
  two date fields the comparison value is the time of the date, which is \<open>NaN\<close> when
  the date is missing; for the profit it is \<^verbatim>\<open>revenue - cost\<close>, which is \<open>NaN\<close> when
  either is missing; 0 is substituted in neither case. The comparison value is never
  \<^verbatim>\<open>undefined\<close>, and the view holds the records of the list unchanged.
\<close>

theorem sortValue_absent:
  "(sf \<in> {Id, Name, Clicks, Cost, Revenue} \<and> get_field sf c = Undefined \<longrightarrow>
      sortValue rt sf c = Number (Fin 0)) \<and>
   (sf \<in> {Id, Name, Clicks, Cost, Revenue} \<and> get_field sf c \<noteq> Undefined \<longrightarrow>
      sortValue rt sf c = get_field sf c) \<and>
   (sf \<in> {StartDate, EndDate} \<longrightarrow>
      sortValue rt sf c = Number (Date_getTime rt (get_field sf c))) \<and>
   (sf \<in> {StartDate, EndDate} \<and> get_field sf c = Undefined \<longrightarrow>
      sortValue rt sf c = Number NaN) \<and>
   (sf = Profit \<and> (get_field Revenue c = Undefined \<or> get_field Cost c = Undefined) \<longrightarrow>
      sortValue rt sf c = Number NaN) \<and>
   sortValue rt sf c \<noteq> Undefined \<and>
   mset (sortedCampaigns rt st) = mset (campaigns st)"
proof -
  have n: "nullish v (Number (Fin 0)) = (if v = Undefined then Number (Fin 0) else v)" for v
    by (cases v) simp_all
  have "sortValue rt sf c \<noteq> Undefined"
    by (cases sf) (simp_all add: sortValue_def n Let_def)
  moreover have "sortValue rt sf c = Number NaN"
    if "sf = Profit \<and> (get_field Revenue c = Undefined \<or> get_field Cost c = Undefined)"
    using that by (auto simp add: sortValue_def js_minus_def)
  ultimately show ?thesis
    by (auto simp add: sortValue_def n Let_def mset_sortedCampaigns)
qed

theorem sortValue_absent_witness:
  "get_field Clicks campaign_undated = Undefined \<and>
   sortValue ecmascript Clicks campaign_undated = Number (Fin 0) \<and>
   get_field Name campaign_undated = Undefined \<and>
   sortValue ecmascript Name campaign_undated = Number (Fin 0) \<and>
   get_field Cost campaign_undated \<noteq> Undefined \<and>
   sortValue ecmascript Cost campaign_undated = Number (Fin 5) \<and>
   get_field EndDate campaign_undated = Undefined \<and>
   sortValue ecmascript EndDate campaign_undated = Number NaN \<and>
   get_field Revenue (campaign_undated\<lparr>revenue := None\<rparr>) = Undefined \<and>
   sortValue ecmascript Profit (campaign_undated\<lparr>revenue := None\<rparr>) = Number NaN"
  using sortValue_absent [where rt = ecmascript and sf = Clicks and c = campaign_undated]
    sortValue_absent [where rt = ecmascript and sf = Name and c = campaign_undated]
    sortValue_absent [where rt = ecmascript and sf = Cost and c = campaign_undated]
    sortValue_absent [where rt = ecmascript and sf = EndDate and c = campaign_undated]
    sortValue_absent [where rt = ecmascript and sf = Profit
      and c = "campaign_undated\<lparr>revenue := None\<rparr>"]
  by (simp add: campaign_undated_def)

section \<open>Properties of loading and saving\<close>

text \<open>
  C1, as stated, fails: with the text \<^verbatim>\<open>oops\<close> under the key, \<^verbatim>\<open>JSON.parse\<close> throws a
  \<^verbatim>\<open>SyntaxError\<close> that leaves the effect; with the JSON string \<^verbatim>\<open>"oops"\<close> under the
  key, the string itself becomes the value of \<^verbatim>\<open>campaigns\<close>.
\<close>

theorem load_effect_malformed_counterexample:
  "load_effect JSON_parse (storage_of [(''campaigns'', ''oops'')]) initial_state
     = Inl (Uncaught SyntaxError) \<and>
   load_effect JSON_parse (storage_of [(''campaigns'', quoted ''oops'')]) initial_state
     = Inl (NotCampaigns (JString ''oops''))"
  by (simp add: load_effect_def getItem_def storage_of_def JSON_parse_examples
      campaigns_of_json_examples) (simp add: quoted_def)

text \<open>
  C1, amended. When the key is absent or holds the empty string, loading leaves the
  state as it is (the collection stays empty). When the stored text is not JSON, the
  error of \<^verbatim>\<open>JSON.parse\<close> leaves the effect uncaught. When the stored text is JSON,
  the parsed value becomes the collection without any check of its shape: a list of
  campaign records if it is one, and otherwise a value that is no collection.
\<close>

theorem load_effect_outcomes:
  "(getItem ls ''campaigns'' = None \<or> getItem ls ''campaigns'' = Some [] \<longrightarrow>
      load_effect parse ls st = Inr st) \<and>
   (getItem ls ''campaigns'' = Some s \<and> s \<noteq> [] \<and> parse s = Inl e \<longrightarrow>
      load_effect parse ls st = Inl (Uncaught e)) \<and>
   (getItem ls ''campaigns'' = Some s \<and> s \<noteq> [] \<and> parse s = Inr v \<and>
    campaigns_of_json v = Some cs \<longrightarrow>
      load_effect parse ls st = Inr (st\<lparr>campaigns := cs\<rparr>)) \<and>
   (getItem ls ''campaigns'' = Some s \<and> s \<noteq> [] \<and> parse s = Inr v \<and>
    campaigns_of_json v = None \<longrightarrow>
      load_effect parse ls st = Inl (NotCampaigns v))"
  by (auto simp add: load_effect_def)

theorem load_effect_outcomes_witness:
  "load_effect JSON_parse (storage_of []) initial_state = Inr initial_state \<and>
   load_effect JSON_parse (storage_of [(''campaigns'', [])]) initial_state = Inr initial_state \<and>
   load_effect JSON_parse (storage_of [(''campaigns'', ''oops'')]) initial_state
     = Inl (Uncaught SyntaxError) \<and>
   load_effect JSON_parse (storage_of [(''campaigns'', stored_example)]) initial_state
     = Inr (initial_state\<lparr>campaigns :=
         [\<lparr>id' = Some ''a'', name = None, startDate = None, endDate = None,
            clicks = None, cost = Some (Fin 50), revenue = None, profit = None\<rparr>]\<rparr>) \<and>
   load_effect JSON_parse (storage_of [(''campaigns'', quoted ''oops'')]) initial_state
     = Inl (NotCampaigns (JString ''oops''))"
proof -
  have ne: "stored_example \<noteq> []" "quoted ''oops'' \<noteq> []" "''oops'' \<noteq> []"
    by (simp_all add: stored_example_def quoted_def)
  have get: "getItem (storage_of [(''campaigns'', x)]) ''campaigns'' = Some x" for x
    by (simp add: getItem_def storage_of_def)
  have none: "getItem (storage_of []) ''campaigns'' = None"
    by (simp add: getItem_def storage_of_def)
  have "load_effect JSON_parse (storage_of []) initial_state = Inr initial_state"
    using load_effect_outcomes [where parse = JSON_parse and ls = "storage_of []"
        and st = initial_state] none
    by blast
  moreover
  have "load_effect JSON_parse (storage_of [(''campaigns'', [])]) initial_state
          = Inr initial_state"
    using load_effect_outcomes [where parse = JSON_parse
        and ls = "storage_of [(''campaigns'', [])]" and st = initial_state] get [of "[]"]
    by blast
  moreover
  have "load_effect JSON_parse (storage_of [(''campaigns'', ''oops'')]) initial_state
          = Inl (Uncaught SyntaxError)"
    using load_effect_outcomes [where parse = JSON_parse
        and ls = "storage_of [(''campaigns'', ''oops'')]" and st = initial_state
        and s = "''oops''" and e = SyntaxError]
      get [of "''oops''"] ne(3) JSON_parse_examples(1)
    by blast
  moreover
  have "load_effect JSON_parse (storage_of [(''campaigns'', stored_example)]) initial_state
     = Inr (initial_state\<lparr>campaigns :=
         [\<lparr>id' = Some ''a'', name = None, startDate = None, endDate = None,
            clicks = None, cost = Some (Fin 50), revenue = None, profit = None\<rparr>]\<rparr>)"
    using load_effect_outcomes [where parse = JSON_parse
        and ls = "storage_of [(''campaigns'', stored_example)]" and st = initial_state
        and s = stored_example
        and v = "JArray [JObject [(''id'', JString ''a''), (''cost'', JNumber (Fin 50))]]"
        and cs = "[\<lparr>id' = Some ''a'', name = None, startDate = None, endDate = None,
            clicks = None, cost = Some (Fin 50), revenue = None, profit = None\<rparr>]"]
      get [of stored_example] ne(1) JSON_parse_examples(3) campaigns_of_json_examples(2)
    by blast
  moreover
  have "load_effect JSON_parse (storage_of [(''campaigns'', quoted ''oops'')]) initial_state
     = Inl (NotCampaigns (JString ''oops''))"
    using load_effect_outcomes [where parse = JSON_parse
        and ls = "storage_of [(''campaigns'', quoted ''oops'')]" and st = initial_state
        and s = "quoted ''oops''" and v = "JString ''oops''"]
      get [of "quoted ''oops''"] ne(2) JSON_parse_examples(2) campaigns_of_json_examples(1)
    by blast
  ultimately show ?thesis by blast
qed

text \<open>
  C2. Adding or deleting a campaign is followed by a write of the serialization of
  the whole new list under the key \<^verbatim>\<open>campaigns\<close>: the store after the action is the
  store before with that one key overwritten. So after any sequence of actions that
  ends with an add or a delete, the text under the key is the serialization of the
  list in the state.
\<close>

theorem save_after_every_mutation:
  "dispatch stringify (AddCampaign c) (st, ls)
     = (handleAddCampaign c st, ls(''campaigns'' \<mapsto> stringify (campaigns st @ [c]))) \<and>
   dispatch stringify (DeleteCampaign i) (st, ls)
     = (handleDeleteCampaign i st,
        ls(''campaigns'' \<mapsto> stringify (filter (\<lambda>c. id' c \<noteq> Some i) (campaigns st)))) \<and>
   getItem (snd (run stringify (evs @ [AddCampaign c]) w)) ''campaigns''
     = Some (stringify (campaigns (fst (run stringify (evs @ [AddCampaign c]) w)))) \<and>
   getItem (snd (run stringify (evs @ [DeleteCampaign i]) w)) ''campaigns''
     = Some (stringify (campaigns (fst (run stringify (evs @ [DeleteCampaign i]) w))))"
proof (intro conjI)
  show "dispatch stringify (AddCampaign c) (st, ls)
     = (handleAddCampaign c st, ls(''campaigns'' \<mapsto> stringify (campaigns st @ [c])))"
    by (simp add: dispatch_def save_effect_def setItem_def handleAddCampaign_def)
  show "dispatch stringify (DeleteCampaign i) (st, ls)
     = (handleDeleteCampaign i st,
        ls(''campaigns'' \<mapsto> stringify (filter (\<lambda>c. id' c \<noteq> Some i) (campaigns st))))"
    by (simp add: dispatch_def save_effect_def setItem_def handleDeleteCampaign_def)
  show "getItem (snd (run stringify (evs @ [AddCampaign c]) w)) ''campaigns''
     = Some (stringify (campaigns (fst (run stringify (evs @ [AddCampaign c]) w))))"
    unfolding run_snoc by (subst dispatch_sets_campaigns) (simp_all add: getItem_def)
  show "getItem (snd (run stringify (evs @ [DeleteCampaign i]) w)) ''campaigns''
     = Some (stringify (campaigns (fst (run stringify (evs @ [DeleteCampaign i]) w))))"
    unfolding run_snoc by (subst dispatch_sets_campaigns) (simp_all add: getItem_def)
qed

end
